theory Spec2Isabelle
  imports Main
begin

section \<open>JavaScript values\<close>

text \<open>
  The hook of \<^verbatim>\<open>src/index.ts\<close> handles caller-supplied values of any type. They are
  modelled by the datatype below. Numbers are the integers plus the distinguished value
  \<open>NaN\<close>; every object (React elements, arrays, plain objects) is a reference \<open>JObj n\<close>,
  equal to itself only.
\<close>

datatype jsval =
    JUndefined
  | JNull
  | JBool bool
  | JNum int
  | JNaN
  | JStr string
  | JObj nat

text \<open>\<^verbatim>\<open>Boolean(v)\<close>, also the test of \<^verbatim>\<open>if (v)\<close> and \<^verbatim>\<open>a && b\<close>.\<close>

fun truthy :: "jsval \<Rightarrow> bool" where
  "truthy JUndefined = False"
| "truthy JNull = False"
| "truthy (JBool b) = b"
| "truthy (JNum n) = (n \<noteq> 0)"
| "truthy JNaN = False"
| "truthy (JStr s) = (s \<noteq> [])"
| "truthy (JObj r) = True"

text \<open>\<^verbatim>\<open>a === b\<close>: same type and same value, with \<open>NaN\<close> different from itself.\<close>

definition strict_equals :: "jsval \<Rightarrow> jsval \<Rightarrow> bool" where
  "strict_equals a b = (a = b \<and> a \<noteq> JNaN)"

definition Number_isNaN :: "jsval \<Rightarrow> bool" where
  "Number_isNaN v = (v = JNaN)"

text \<open>\<^verbatim>\<open>typeof v === "boolean"\<close>.\<close>

fun is_boolean :: "jsval \<Rightarrow> bool" where
  "is_boolean (JBool b) = True"
| "is_boolean v = False"

text \<open>Decimal printing of a number inside a template literal.\<close>

definition digit :: "nat \<Rightarrow> char" where
  "digit d = ''0123456789'' ! d"

function string_of_nat :: "nat \<Rightarrow> string" where
  "string_of_nat n =
     (if n < 10 then [digit n]
      else string_of_nat (n div 10) @ [digit (n mod 10)])"
  by pat_completeness auto
termination
  by (relation "measure (\<lambda>n. n)") auto

declare string_of_nat.simps [simp del]

text \<open>A piece of a message between single quotes.\<close>

definition quoted :: "string \<Rightarrow> string" where
  "quoted x = CHR 0x27 # x @ [CHR 0x27]"

section \<open>Comparators\<close>

text \<open>
  A comparator is caller code: it returns a value (declared \<^verbatim>\<open>boolean\<close>, but nothing
  checks it at run time) or throws. It is taken to be a function of its two arguments
  that does not call the handle.
\<close>

datatype completion = Return jsval | Throw jsval

type_synonym MatchComparator = "jsval \<Rightarrow> jsval \<Rightarrow> completion"

definition defaultComparator :: MatchComparator where
  "defaultComparator v matchValue =
     (if Number_isNaN v \<and> Number_isNaN matchValue then Return (JBool True)
      else Return (JBool (strict_equals v matchValue)))"

text \<open>
  The second argument of \<^verbatim>\<open>match\<close>: left out, a function, or some value that is not a
  function (\<^verbatim>\<open>undefined\<close> counts as left out, as default parameters do).
\<close>

datatype comparator_arg = Omitted | Callable MatchComparator | NotCallable jsval

section \<open>Chain state\<close>

datatype condition_type = TWhen | TMatch | TFallback

fun type_name :: "condition_type \<Rightarrow> string" where
  "type_name TWhen = ''when''"
| "type_name TMatch = ''match''"
| "type_name TFallback = ''fallback''"

text \<open>
  \<^verbatim>\<open>ConditionCase\<close>. The optional properties \<open>condition\<close> and \<open>matchValue\<close> are \<open>None\<close>
  when the object literal leaves them out; \<open>component\<close> is \<^verbatim>\<open>null\<close> until a payload is
  attached. The properties \<^verbatim>\<open>type\<close> and \<^verbatim>\<open>id\<close> are the fields \<open>ctype\<close> and \<open>cid\<close>, and
  \<^verbatim>\<open>value\<close> of \<^verbatim>\<open>ConditionMeta\<close> is \<open>mvalue\<close>. The methods \<^verbatim>\<open>when\<close>, \<^verbatim>\<open>then\<close>, \<^verbatim>\<open>match\<close>,
  \<^verbatim>\<open>case\<close>, \<^verbatim>\<open>render\<close>, \<^verbatim>\<open>fallback\<close>, \<^verbatim>\<open>debug\<close> and \<^verbatim>\<open>otherwise\<close> are named \<open>api_when\<close>
  and so on.
\<close>

record ConditionCase =
  ctype :: condition_type
  condition :: "jsval option"
  matchValue :: "jsval option"
  component :: jsval
  cid :: string

record ConditionMeta =
  matchedIndex :: int
  mvalue :: jsval
  comparator :: MatchComparator
  isInMatchMode :: bool

text \<open>
  What the hook writes to the console: \<^verbatim>\<open>console.warn\<close> with its message,
  \<^verbatim>\<open>console.error\<close> with its message and the caught value, and the group that
  \<^verbatim>\<open>debug\<close> prints (the label of each line only).
\<close>

datatype diag =
    Warn string
  | Error string jsval
  | Group string
  | Log string
  | GroupEnd

text \<open>
  The records of a chain are objects: \<^verbatim>\<open>then\<close>, \<^verbatim>\<open>render\<close> and \<^verbatim>\<open>fallback\<close> assign to a
  property of an object that the array \<^verbatim>\<open>conditions.current\<close> references, and
  \<^verbatim>\<open>getConditions\<close> hands the same objects out. So the state has a store of objects
  (\<open>heap\<close>, an address is an index) and the array is a list of addresses. The module-level
  \<open>conditionIdCounter\<close> and the console are part of the state as well.
\<close>

record state =
  heap :: "ConditionCase list"
  conditionIdCounter :: nat
  console :: "diag list"
  conditions :: "nat list"
  meta :: ConditionMeta

definition initial_meta :: ConditionMeta where
  "initial_meta =
     \<lparr>matchedIndex = - 1, mvalue = JNull, comparator = defaultComparator,
      isInMatchMode = False\<rparr>"

text \<open>\<^verbatim>\<open>useCondition()\<close> on first render: the two refs are created.\<close>

definition useCondition :: "ConditionCase list \<Rightarrow> nat \<Rightarrow> diag list \<Rightarrow> state" where
  "useCondition h n out =
     \<lparr>heap = h, conditionIdCounter = n, console = out, conditions = [],
      meta = initial_meta\<rparr>"

text \<open>\<^verbatim>\<open>console.warn(msg)\<close> and \<^verbatim>\<open>console.error(msg, e)\<close>.\<close>

definition warn :: "string \<Rightarrow> state \<Rightarrow> state" where
  "warn msg s = s\<lparr>console := console s @ [Warn msg]\<rparr>"

definition error :: "string \<Rightarrow> jsval \<Rightarrow> state \<Rightarrow> state" where
  "error msg e s = s\<lparr>console := console s @ [Error msg e]\<rparr>"

text \<open>\<^verbatim>\<open>conditions.current.push({...})\<close>: a new object, referenced from the end.\<close>

definition push :: "ConditionCase \<Rightarrow> state \<Rightarrow> state" where
  "push c s = s\<lparr>heap := heap s @ [c], conditions := conditions s @ [length (heap s)]\<rparr>"

text \<open>\<^verbatim>\<open>conditions.current[conditions.current.length - 1]\<close>, \<^verbatim>\<open>undefined\<close> on an empty array.\<close>

definition lastCondition :: "state \<Rightarrow> nat option" where
  "lastCondition s = (if conditions s = [] then None else Some (last (conditions s)))"

text \<open>\<^verbatim>\<open>obj.component = v\<close> on the object at address \<open>a\<close>.\<close>

definition set_component :: "nat \<Rightarrow> jsval \<Rightarrow> state \<Rightarrow> state" where
  "set_component a v s = s\<lparr>heap := (heap s)[a := (heap s ! a)\<lparr>component := v\<rparr>]\<rparr>"

section \<open>The API\<close>

text \<open>
  \<^verbatim>\<open>reset\<close> gives both refs a new value; the records of the old array stay in the store,
  out of reach of the handle.
\<close>

definition reset :: "state \<Rightarrow> state" where
  "reset s = s\<lparr>conditions := [], meta := initial_meta\<rparr>"

text \<open>
  \<^verbatim>\<open>validateChaining(expectedPrevious, operation)\<close>: the answer, and the state with the
  warning when the answer is no.
\<close>

definition validateChaining :: "string \<Rightarrow> string \<Rightarrow> state \<Rightarrow> bool \<times> state" where
  "validateChaining expectedPrevious operation s =
     (case lastCondition s of
        None \<Rightarrow>
          (False, warn (''[useCondition] '' @ operation @
             '' called without a preceding condition. Use '' @ quoted ''when()'' @
             '' or '' @ quoted ''case()'' @ '' first.'') s)
      | Some a \<Rightarrow>
          if expectedPrevious = ''when'' \<and> ctype (heap s ! a) \<noteq> TWhen then
            (False, warn (''[useCondition] '' @ operation @ '' should follow '' @
               quoted ''when()'' @ '' but found '' @
               quoted (type_name (ctype (heap s ! a))) @ ''.'') s)
          else if expectedPrevious = ''case'' \<and> ctype (heap s ! a) \<noteq> TMatch then
            (False, warn (''[useCondition] '' @ operation @ '' should follow '' @
               quoted ''case()'' @ '' but found '' @
               quoted (type_name (ctype (heap s ! a))) @ ''.'') s)
          else (True, s))"

text \<open>
  \<^verbatim>\<open>when(condition)\<close>. Neither \<^verbatim>\<open>typeof\<close> nor \<^verbatim>\<open>Boolean\<close> nor \<^verbatim>\<open>push\<close> throws, so the
  \<^verbatim>\<open>catch\<close> branch has no counterpart.
\<close>

definition api_when :: "jsval \<Rightarrow> state \<Rightarrow> state" where
  "api_when c s =
     (let s1 = (if \<not> is_boolean c then
                  warn (''[useCondition] when() expects a boolean value. '' @
                        ''Non-boolean values will be converted using Boolean().'') s
                else s);
          n = Suc (conditionIdCounter s1)
      in push \<lparr>ctype = TWhen, condition = Some (JBool (truthy c)), matchValue = None,
               component = JNull, cid = ''when-'' @ string_of_nat n\<rparr>
           (s1\<lparr>conditionIdCounter := n\<rparr>))"

definition api_then :: "jsval \<Rightarrow> state \<Rightarrow> state" where
  "api_then node s =
     (case validateChaining ''when'' ''then()'' s of
        (False, s1) \<Rightarrow> s1
      | (True, s1) \<Rightarrow>
          (case lastCondition s1 of
             None \<Rightarrow> s1
           | Some a \<Rightarrow>
               set_component a node
                 (if component (heap s1 ! a) \<noteq> JNull then
                    warn (''[useCondition] Multiple then() calls detected. '' @
                          ''Only the last one will be used.'') s1
                  else s1)))"

definition api_match :: "jsval \<Rightarrow> comparator_arg \<Rightarrow> state \<Rightarrow> state" where
  "api_match v arg s =
     (let s1 = (if isInMatchMode (meta s) then
                  warn (''[useCondition] Multiple match() calls detected. '' @
                        ''Previous match context will be overridden.'') s
                else s);
          (cmp, s2) =
            (case arg of
               Omitted \<Rightarrow> (defaultComparator, s1)
             | Callable f \<Rightarrow> (f, s1)
             | NotCallable x \<Rightarrow>
                 if x = JUndefined then (defaultComparator, s1)
                 else (defaultComparator,
                       warn (''[useCondition] comparator must be a function. '' @
                             ''Using default comparator.'') s1))
      in s2\<lparr>meta := (meta s2)\<lparr>mvalue := v, comparator := cmp, isInMatchMode := True\<rparr>\<rparr>)"

text \<open>
  \<^verbatim>\<open>case(matchValue)\<close>. The inner \<^verbatim>\<open>try\<close> catches what the comparator throws; nothing
  else in the body throws.
\<close>

definition api_case :: "jsval \<Rightarrow> state \<Rightarrow> state" where
  "api_case mv s =
     (if \<not> isInMatchMode (meta s) then
        warn (''[useCondition] case() called without match(). '' @
              ''Use match() first to set the value to compare against.'') s
      else
        let (cond, s1) =
              (case comparator (meta s) (mvalue (meta s)) mv of
                 Return r \<Rightarrow> (r, s)
               | Throw e \<Rightarrow>
                   (JBool False,
                    error ''[useCondition] Comparator function threw an error:'' e s));
            n = Suc (conditionIdCounter s1)
        in push \<lparr>ctype = TMatch, condition = Some cond, matchValue = Some mv,
                 component = JNull, cid = ''case-'' @ string_of_nat n\<rparr>
             (s1\<lparr>conditionIdCounter := n\<rparr>))"

definition api_render :: "jsval \<Rightarrow> state \<Rightarrow> state" where
  "api_render node s =
     (case validateChaining ''case'' ''render()'' s of
        (False, s1) \<Rightarrow> s1
      | (True, s1) \<Rightarrow>
          (case lastCondition s1 of
             None \<Rightarrow> s1
           | Some a \<Rightarrow>
               set_component a node
                 (if component (heap s1 ! a) \<noteq> JNull then
                    warn (''[useCondition] Multiple render() calls detected. '' @
                          ''Only the last one will be used.'') s1
                  else s1)))"

definition api_fallback :: "jsval \<Rightarrow> state \<Rightarrow> state" where
  "api_fallback node s =
     (case find (\<lambda>a. ctype (heap s ! a) = TFallback) (conditions s) of
        Some a \<Rightarrow>
          set_component a node
            (warn (''[useCondition] Multiple fallback() calls detected. '' @
                   ''Only the last one will be used.'') s)
      | None \<Rightarrow>
          (let n = Suc (conditionIdCounter s)
           in push \<lparr>ctype = TFallback, condition = None, matchValue = None,
                    component = node, cid = ''fallback-'' @ string_of_nat n\<rparr>
                (s\<lparr>conditionIdCounter := n\<rparr>)))"

definition api_debug :: "state \<Rightarrow> state" where
  "api_debug s =
     s\<lparr>console := console s @
         [Group ''[useCondition] Debug Info'', Log ''Conditions:'', Log ''Meta:'',
          Log ''Matched Index:'', GroupEnd]\<rparr>"

definition getMatchedIndex :: "state \<Rightarrow> int" where
  "getMatchedIndex s = matchedIndex (meta s)"

definition hasMatched :: "state \<Rightarrow> bool" where
  "hasMatched s = (matchedIndex (meta s) \<noteq> - 1)"

text \<open>
  \<^verbatim>\<open>Object.freeze([...conditions.current])\<close>: a new frozen array holding the same
  references.
\<close>

definition getConditions :: "state \<Rightarrow> nat list" where
  "getConditions s = conditions s"

text \<open>The test of the \<^verbatim>\<open>for\<close> loop of \<^verbatim>\<open>otherwise\<close> on one record.\<close>

definition selectable :: "ConditionCase \<Rightarrow> bool" where
  "selectable c =
     ((ctype c = TWhen \<or> ctype c = TMatch) \<and>
      (case condition c of None \<Rightarrow> False | Some v \<Rightarrow> truthy v) \<and>
      component c \<noteq> JNull)"

text \<open>The filter of \<^verbatim>\<open>otherwise\<close> for incomplete chains.\<close>

definition incomplete :: "ConditionCase \<Rightarrow> bool" where
  "incomplete c = ((ctype c = TWhen \<or> ctype c = TMatch) \<and> component c = JNull)"

text \<open>The loop, from index \<open>i\<close> on; \<open>as\<close> is the rest of the array.\<close>

fun first_match :: "ConditionCase list \<Rightarrow> nat list \<Rightarrow> nat \<Rightarrow> (nat \<times> jsval) option" where
  "first_match h [] i = None"
| "first_match h (a # as) i =
     (if selectable (h ! a) then Some (i, component (h ! a))
      else first_match h as (Suc i))"

text \<open>
  Nothing in the \<^verbatim>\<open>try\<close> block of \<^verbatim>\<open>otherwise\<close> can throw on these states, so the
  \<^verbatim>\<open>catch\<close> branch has no counterpart. The argument is \<open>None\<close> when the caller gives
  none; \<^verbatim>\<open>undefined\<close> takes the default \<^verbatim>\<open>null\<close> too.
\<close>

fun default_parameter :: "jsval option \<Rightarrow> jsval" where
  "default_parameter None = JNull"
| "default_parameter (Some d) = (if d = JUndefined then JNull else d)"

definition api_otherwise :: "jsval option \<Rightarrow> state \<Rightarrow> jsval \<times> state" where
  "api_otherwise arg s =
     (let defaultComponent = default_parameter arg;
          s1 = s\<lparr>meta := (meta s)\<lparr>matchedIndex := - 1\<rparr>\<rparr>;
          incompleteConditions = filter (\<lambda>a. incomplete (heap s1 ! a)) (conditions s1);
          s2 = (if length incompleteConditions > 0 then
                  warn (''[useCondition] Found '' @
                        string_of_nat (length incompleteConditions) @
                        '' incomplete condition(s). These will be ignored.'') s1
                else s1)
      in case first_match (heap s2) (conditions s2) 0 of
           Some (i, node) \<Rightarrow> (node, s2\<lparr>meta := (meta s2)\<lparr>matchedIndex := int i\<rparr>\<rparr>)
         | None \<Rightarrow>
             (case find (\<lambda>a. ctype (heap s2 ! a) = TFallback) (conditions s2) of
                Some a \<Rightarrow>
                  if component (heap s2 ! a) \<noteq> JNull then (component (heap s2 ! a), s2)
                  else (defaultComponent, s2)
              | None \<Rightarrow> (defaultComponent, s2)))"

section \<open>Call sequences\<close>

datatype call =
    When jsval
  | Then jsval
  | Match jsval comparator_arg
  | Case jsval
  | Render jsval
  | Fallback jsval
  | Debug
  | Reset
  | Otherwise "jsval option"
  | GetMatchedIndex
  | HasMatched
  | GetConditions

text \<open>
  What a call returns: the handle itself, a payload, the index, the flag, or a snapshot
  (observed as the records its references point to).
\<close>

datatype result =
    Api
  | Payload jsval
  | Index int
  | Flag bool
  | Snapshot "ConditionCase list"

definition deref :: "state \<Rightarrow> nat list \<Rightarrow> ConditionCase list" where
  "deref s as = map (\<lambda>a. heap s ! a) as"

fun run_call :: "call \<Rightarrow> state \<Rightarrow> result \<times> state" where
  "run_call (When c) s = (Api, api_when c s)"
| "run_call (Then p) s = (Api, api_then p s)"
| "run_call (Match v arg) s = (Api, api_match v arg s)"
| "run_call (Case v) s = (Api, api_case v s)"
| "run_call (Render p) s = (Api, api_render p s)"
| "run_call (Fallback p) s = (Api, api_fallback p s)"
| "run_call Debug s = (Api, api_debug s)"
| "run_call Reset s = (Api, reset s)"
| "run_call (Otherwise d) s = (case api_otherwise d s of (p, s') \<Rightarrow> (Payload p, s'))"
| "run_call GetMatchedIndex s = (Index (getMatchedIndex s), s)"
| "run_call HasMatched s = (Flag (hasMatched s), s)"
| "run_call GetConditions s = (Snapshot (deref s (getConditions s)), s)"

text \<open>A sequence of calls: the results in order and the final state.\<close>

fun run :: "call list \<Rightarrow> state \<Rightarrow> result list \<times> state" where
  "run [] s = ([], s)"
| "run (c # cs) s =
     (case run_call c s of (r, s1) \<Rightarrow> (case run cs s1 of (rs, s2) \<Rightarrow> (r # rs, s2)))"

text \<open>
  The content of the chain: the records in array order. References never dangle in
  JavaScript and \<^verbatim>\<open>push\<close> always adds a new object, so the states that exist are the
  well-formed ones.
\<close>

definition view :: "state \<Rightarrow> ConditionCase list" where
  "view s = deref s (conditions s)"

definition well_formed :: "state \<Rightarrow> bool" where
  "well_formed s = (distinct (conditions s) \<and> list_all (\<lambda>a. a < length (heap s)) (conditions s))"

text \<open>
  A caller holding a snapshot can write to a property of one of its entries; the entry is
  the object of the chain itself.
\<close>

definition entry_assign :: "nat \<Rightarrow> (ConditionCase \<Rightarrow> ConditionCase) \<Rightarrow> state \<Rightarrow> state" where
  "entry_assign a f s = s\<lparr>heap := (heap s)[a := f (heap s ! a)]\<rparr>"

section \<open>Auxiliary functions for stating the results\<close>

text \<open>The comparator that \<^verbatim>\<open>match\<close> installs for each kind of second argument.\<close>

fun comparator_of :: "comparator_arg \<Rightarrow> MatchComparator" where
  "comparator_of (Callable f) = f"
| "comparator_of arg = defaultComparator"

text \<open>The value \<^verbatim>\<open>case\<close> stores as \<open>condition\<close>.\<close>

fun outcome :: "completion \<Rightarrow> jsval" where
  "outcome (Return r) = r"
| "outcome (Throw e) = JBool False"

text \<open>The position of the first \<open>fallback\<close> record, the length of the list when there is none.\<close>

definition fallback_index :: "ConditionCase list \<Rightarrow> nat" where
  "fallback_index v = length (takeWhile (\<lambda>c. ctype c \<noteq> TFallback) v)"

text \<open>
  The state that \<^verbatim>\<open>when(false).then(A).when(true).then(B).when(true).then(C)\<close>
  builds on a new handle, in a store with nothing else.
\<close>

definition three_whens :: state where
  "three_whens =
     \<lparr>heap =
        [\<lparr>ctype = TWhen, condition = Some (JBool False), matchValue = None,
          component = JStr ''A'', cid = ''when-1''\<rparr>,
         \<lparr>ctype = TWhen, condition = Some (JBool True), matchValue = None,
          component = JStr ''B'', cid = ''when-2''\<rparr>,
         \<lparr>ctype = TWhen, condition = Some (JBool True), matchValue = None,
          component = JStr ''C'', cid = ''when-3''\<rparr>],
      conditionIdCounter = 3, console = [], conditions = [0, 1, 2],
      meta = initial_meta\<rparr>"

text \<open>
  The state that \<^verbatim>\<open>match("user").case("admin").render(A).case("user").render(B)\<close>
  builds on a new handle.
\<close>

definition match_user :: state where
  "match_user =
     \<lparr>heap =
        [\<lparr>ctype = TMatch, condition = Some (JBool False), matchValue = Some (JStr ''admin''),
          component = JStr ''A'', cid = ''case-1''\<rparr>,
         \<lparr>ctype = TMatch, condition = Some (JBool True), matchValue = Some (JStr ''user''),
          component = JStr ''B'', cid = ''case-2''\<rparr>],
      conditionIdCounter = 2, console = [], conditions = [0, 1],
      meta = \<lparr>matchedIndex = - 1, mvalue = JStr ''user'', comparator = defaultComparator,
              isInMatchMode = True\<rparr>\<rparr>"

text \<open>
  A new handle after \<^verbatim>\<open>match("test", throwingComparator)\<close>, the comparator of the
  test suite that throws on every call.
\<close>

definition throwing_match :: state where
  "throwing_match =
     \<lparr>heap = [], conditionIdCounter = 0, console = [], conditions = [],
      meta = \<lparr>matchedIndex = - 1, mvalue = JStr ''test'',
              comparator = (\<lambda>a b. Throw (JStr ''Comparator error'')),
              isInMatchMode = True\<rparr>\<rparr>"

text \<open>
  A new handle after \<^verbatim>\<open>match("abc", (a, b) => a === b ? "yes" : 0)\<close>: a comparator
  whose results are not booleans.
\<close>

definition truthy_match :: state where
  "truthy_match =
     \<lparr>heap = [], conditionIdCounter = 0, console = [], conditions = [],
      meta = \<lparr>matchedIndex = - 1, mvalue = JStr ''abc'',
              comparator = (\<lambda>a b. Return (if a = b then JStr ''yes'' else JNum 0)),
              isInMatchMode = True\<rparr>\<rparr>"

text \<open>
  The calls \<^verbatim>\<open>match\<close> and \<^verbatim>\<open>reset\<close>, and the three fields of \<open>meta\<close> that make up the
  match context.
\<close>

fun changes_context :: "call \<Rightarrow> bool" where
  "changes_context (Match v arg) = True"
| "changes_context Reset = True"
| "changes_context c = False"

definition match_context :: "state \<Rightarrow> bool \<times> jsval \<times> MatchComparator" where
  "match_context s = (isInMatchMode (meta s), mvalue (meta s), comparator (meta s))"

text \<open>
  The states that \<^verbatim>\<open>when(true)\<close> and \<^verbatim>\<open>when(false).then(A)\<close> build on a new handle.
\<close>

definition when_true :: state where
  "when_true =
     \<lparr>heap = [\<lparr>ctype = TWhen, condition = Some (JBool True), matchValue = None,
               component = JNull, cid = ''when-1''\<rparr>],
      conditionIdCounter = 1, console = [], conditions = [0], meta = initial_meta\<rparr>"

definition when_false_then_A :: state where
  "when_false_then_A =
     \<lparr>heap = [\<lparr>ctype = TWhen, condition = Some (JBool False), matchValue = None,
               component = JStr ''A'', cid = ''when-1''\<rparr>],
      conditionIdCounter = 1, console = [], conditions = [0], meta = initial_meta\<rparr>"


text \<open>
  The number of \<open>fallback\<close> records of a chain.
\<close>

definition fallback_count :: "ConditionCase list \<Rightarrow> nat" where
  "fallback_count v = length (filter (\<lambda>c. ctype c = TFallback) v)"

text \<open>
  Two states with the same content of the chain, the same \<open>meta\<close> and the same counter:
  the store may differ. The second relation also forgets the counter and the ids of the
  records, which \<open>erase_id\<close> blanks, in a record and in a result.
\<close>

definition same_chain :: "state \<Rightarrow> state \<Rightarrow> bool" where
  "same_chain s t =
     (view s = view t \<and> meta s = meta t \<and> conditionIdCounter s = conditionIdCounter t)"

definition erase_id :: "ConditionCase \<Rightarrow> ConditionCase" where
  "erase_id c = c\<lparr>cid := []\<rparr>"

fun erase_ids :: "result \<Rightarrow> result" where
  "erase_ids (Snapshot v) = Snapshot (map erase_id v)"
| "erase_ids r = r"

definition same_chain_but_ids :: "state \<Rightarrow> state \<Rightarrow> bool" where
  "same_chain_but_ids s t =
     (map erase_id (view s) = map erase_id (view t) \<and> meta s = meta t)"

text \<open>
  The result and the index of \<^verbatim>\<open>otherwise\<close> as functions of the content of the chain.
\<close>

definition resolved :: "ConditionCase list \<Rightarrow> jsval \<Rightarrow> jsval" where
  "resolved v dflt =
     (case find selectable v of
        Some c \<Rightarrow> component c
      | None \<Rightarrow>
          (case find (\<lambda>c. ctype c = TFallback) v of
             Some f \<Rightarrow> if component f \<noteq> JNull then component f else dflt
           | None \<Rightarrow> dflt))"

definition resolved_index :: "ConditionCase list \<Rightarrow> int" where
  "resolved_index v =
     (case find selectable v of
        Some c \<Rightarrow> int (length (takeWhile (\<lambda>c. \<not> selectable c) v))
      | None \<Rightarrow> - 1)"

section \<open>Basic facts\<close>

lemma warn_fields [simp]:
  "heap (warn m s) = heap s" "conditions (warn m s) = conditions s"
  "meta (warn m s) = meta s" "conditionIdCounter (warn m s) = conditionIdCounter s"
  "console (warn m s) = console s @ [Warn m]"
  by (simp_all add: warn_def)

lemma error_fields [simp]:
  "heap (error m e s) = heap s" "conditions (error m e s) = conditions s"
  "meta (error m e s) = meta s" "conditionIdCounter (error m e s) = conditionIdCounter s"
  "console (error m e s) = console s @ [Error m e]"
  by (simp_all add: error_def)

lemma push_fields [simp]:
  "heap (push c s) = heap s @ [c]" "conditions (push c s) = conditions s @ [length (heap s)]"
  "meta (push c s) = meta s" "conditionIdCounter (push c s) = conditionIdCounter s"
  "console (push c s) = console s"
  by (simp_all add: push_def)

lemma set_component_fields [simp]:
  "heap (set_component a v s) = (heap s)[a := (heap s ! a)\<lparr>component := v\<rparr>]"
  "conditions (set_component a v s) = conditions s"
  "meta (set_component a v s) = meta s"
  "conditionIdCounter (set_component a v s) = conditionIdCounter s"
  "console (set_component a v s) = console s"
  by (simp_all add: set_component_def)

lemma view_cong: "heap s = heap t \<Longrightarrow> conditions s = conditions t \<Longrightarrow> view s = view t"
  by (simp add: view_def deref_def)

lemma wf_cong: "heap s = heap t \<Longrightarrow> conditions s = conditions t \<Longrightarrow> well_formed s = well_formed t"
  by (simp add: well_formed_def)

lemma view_warn [simp]: "view (warn m s) = view s"
  by (rule view_cong) simp_all

lemma view_error [simp]: "view (error m e s) = view s"
  by (rule view_cong) simp_all

lemma wf_warn [simp]: "well_formed (warn m s) = well_formed s"
  by (rule wf_cong) simp_all

lemma wf_error [simp]: "well_formed (error m e s) = well_formed s"
  by (rule wf_cong) simp_all

lemma length_view [simp]: "length (view s) = length (conditions s)"
  by (simp add: view_def deref_def)

lemma view_nth: "i < length (conditions s) \<Longrightarrow> view s ! i = heap s ! (conditions s ! i)"
  by (simp add: view_def deref_def)

lemma view_Nil [simp]: "(view s = []) = (conditions s = [])"
  by (simp add: view_def deref_def)

lemma view_push: "well_formed s \<Longrightarrow> view (push c s) = view s @ [c]"
  by (auto simp: view_def deref_def well_formed_def list_all_iff nth_append)

lemma wf_push: "well_formed s \<Longrightarrow> well_formed (push c s)"
  by (auto simp: well_formed_def list_all_iff)

lemma wf_set_component [simp]: "well_formed (set_component a v s) = well_formed s"
  by (simp add: well_formed_def)

lemma view_set_component:
  "well_formed s \<Longrightarrow> i < length (conditions s) \<Longrightarrow>
   view (set_component (conditions s ! i) v s) = (view s)[i := (view s ! i)\<lparr>component := v\<rparr>]"
  by (auto simp: view_def deref_def well_formed_def list_all_iff list_eq_iff_nth_eq nth_list_update
      nth_eq_iff_index_eq)

lemma last_view: "conditions s \<noteq> [] \<Longrightarrow> last (view s) = heap s ! last (conditions s)"
  by (simp add: view_def deref_def last_map)


lemma list_update_last_conv:
  "xs \<noteq> [] \<Longrightarrow> xs[length xs - Suc 0 := y] = butlast xs @ [y]"
  by (induction xs rule: rev_induct) simp_all

lemma view_set_component_last:
  assumes "well_formed s" "conditions s \<noteq> []"
  shows "view (set_component (last (conditions s)) v s) =
         butlast (view s) @ [(last (view s))\<lparr>component := v\<rparr>]"
proof -
  let ?i = "length (conditions s) - Suc 0"
  have i: "?i < length (conditions s)" using assms(2) by simp
  have l: "last (conditions s) = conditions s ! ?i"
    using assms(2) by (simp add: last_conv_nth)
  have "view s ! ?i = last (view s)"
    using assms(2) by (simp add: last_conv_nth)
  with view_set_component [OF assms(1) i, of v] l
  show ?thesis
    using assms(2) list_update_last_conv [of "view s"] by simp
qed

subsection \<open>then and render, case by case\<close>

lemma api_then_empty:
  "conditions s = [] \<Longrightarrow>
   api_then p s =
     warn (''[useCondition] then() called without a preceding condition. Use '' @
           quoted ''when()'' @ '' or '' @ quoted ''case()'' @ '' first.'') s"
  by (simp add: api_then_def validateChaining_def lastCondition_def)

lemma api_then_wrong_type:
  "conditions s \<noteq> [] \<Longrightarrow> ctype (heap s ! last (conditions s)) \<noteq> TWhen \<Longrightarrow>
   api_then p s =
     warn (''[useCondition] then() should follow '' @ quoted ''when()'' @ '' but found '' @
           quoted (type_name (ctype (heap s ! last (conditions s)))) @ ''.'') s"
  by (simp add: api_then_def validateChaining_def lastCondition_def)

lemma api_then_ok:
  "conditions s \<noteq> [] \<Longrightarrow> ctype (heap s ! last (conditions s)) = TWhen \<Longrightarrow>
   api_then p s =
     set_component (last (conditions s)) p
       (if component (heap s ! last (conditions s)) \<noteq> JNull then
          warn (''[useCondition] Multiple then() calls detected. '' @
                ''Only the last one will be used.'') s
        else s)"
  by (simp add: api_then_def validateChaining_def lastCondition_def)

lemma api_render_empty:
  "conditions s = [] \<Longrightarrow>
   api_render p s =
     warn (''[useCondition] render() called without a preceding condition. Use '' @
           quoted ''when()'' @ '' or '' @ quoted ''case()'' @ '' first.'') s"
  by (simp add: api_render_def validateChaining_def lastCondition_def)

lemma api_render_wrong_type:
  "conditions s \<noteq> [] \<Longrightarrow> ctype (heap s ! last (conditions s)) \<noteq> TMatch \<Longrightarrow>
   api_render p s =
     warn (''[useCondition] render() should follow '' @ quoted ''case()'' @ '' but found '' @
           quoted (type_name (ctype (heap s ! last (conditions s)))) @ ''.'') s"
  by (simp add: api_render_def validateChaining_def lastCondition_def)

lemma api_render_ok:
  "conditions s \<noteq> [] \<Longrightarrow> ctype (heap s ! last (conditions s)) = TMatch \<Longrightarrow>
   api_render p s =
     set_component (last (conditions s)) p
       (if component (heap s ! last (conditions s)) \<noteq> JNull then
          warn (''[useCondition] Multiple render() calls detected. '' @
                ''Only the last one will be used.'') s
        else s)"
  by (simp add: api_render_def validateChaining_def lastCondition_def)


subsection \<open>Updates of the other fields\<close>

lemma view_counter_update [simp]: "view (s\<lparr>conditionIdCounter := n\<rparr>) = view s"
  by (rule view_cong) simp_all

lemma view_meta_update [simp]: "view (s\<lparr>meta := m\<rparr>) = view s"
  by (rule view_cong) simp_all

lemma view_console_update [simp]: "view (s\<lparr>console := out\<rparr>) = view s"
  by (rule view_cong) simp_all

lemma wf_counter_update [simp]: "well_formed (s\<lparr>conditionIdCounter := n\<rparr>) = well_formed s"
  by (rule wf_cong) simp_all

lemma wf_meta_update [simp]: "well_formed (s\<lparr>meta := m\<rparr>) = well_formed s"
  by (rule wf_cong) simp_all

lemma wf_console_update [simp]: "well_formed (s\<lparr>console := out\<rparr>) = well_formed s"
  by (rule wf_cong) simp_all

subsection \<open>Searching a list\<close>

lemma find_map_conv: "find P (map f xs) = map_option f (find (\<lambda>x. P (f x)) xs)"
  by (induction xs) simp_all

lemma find_Some_takeWhile:
  "find P xs = Some x \<Longrightarrow>
   length (takeWhile (\<lambda>y. \<not> P y) xs) < length xs \<and>
   xs ! length (takeWhile (\<lambda>y. \<not> P y) xs) = x"
  by (induction xs) (auto split: if_splits)

lemma takeWhile_map_length:
  "length (takeWhile P (map f xs)) = length (takeWhile (\<lambda>x. P (f x)) xs)"
  by (induction xs) simp_all

lemma first_match_conv:
  "first_match h as i =
     (case find (\<lambda>a. selectable (h ! a)) as of
        None \<Rightarrow> None
      | Some a \<Rightarrow>
          Some (i + length (takeWhile (\<lambda>a. \<not> selectable (h ! a)) as), component (h ! a)))"
  by (induction as arbitrary: i) (auto split: option.splits)

lemma first_match_view:
  "first_match (heap s) (conditions s) 0 =
     (case find selectable (view s) of
        None \<Rightarrow> None
      | Some c \<Rightarrow> Some (length (takeWhile (\<lambda>c. \<not> selectable c) (view s)), component c))"
  by (simp add: first_match_conv view_def deref_def find_map_conv takeWhile_map_length
      split: option.splits)

lemma find_fallback_view:
  "map_option (\<lambda>a. heap s ! a) (find (\<lambda>a. ctype (heap s ! a) = TFallback) (conditions s)) =
   find (\<lambda>c. ctype c = TFallback) (view s)"
  by (simp add: view_def deref_def find_map_conv)

lemma filter_incomplete_view:
  "filter incomplete (view s) =
   map (\<lambda>a. heap s ! a) (filter (\<lambda>a. incomplete (heap s ! a)) (conditions s))"
  by (simp add: view_def deref_def filter_map comp_def)

subsection \<open>when, match and case\<close>

lemma api_when_fields [simp]:
  "meta (api_when c s) = meta s"
  "conditionIdCounter (api_when c s) = Suc (conditionIdCounter s)"
  by (simp_all add: api_when_def Let_def)

lemma view_api_when:
  "well_formed s \<Longrightarrow>
   view (api_when c s) =
     view s @ [\<lparr>ctype = TWhen, condition = Some (JBool (truthy c)), matchValue = None,
                component = JNull,
                cid = ''when-'' @ string_of_nat (Suc (conditionIdCounter s))\<rparr>]"
  by (simp add: api_when_def Let_def view_push)

lemma wf_api_when: "well_formed s \<Longrightarrow> well_formed (api_when c s)"
  by (simp add: api_when_def Let_def wf_push)

lemma api_match_fields [simp]:
  "heap (api_match v arg s) = heap s"
  "conditions (api_match v arg s) = conditions s"
  "conditionIdCounter (api_match v arg s) = conditionIdCounter s"
  "meta (api_match v arg s) =
     (meta s)\<lparr>mvalue := v, comparator := comparator_of arg, isInMatchMode := True\<rparr>"
  by (simp_all add: api_match_def Let_def split: comparator_arg.splits)

lemma view_api_match [simp]: "view (api_match v arg s) = view s"
  by (rule view_cong) simp_all

lemma wf_api_match [simp]: "well_formed (api_match v arg s) = well_formed s"
  by (rule wf_cong) simp_all

lemma api_case_closed:
  "\<not> isInMatchMode (meta s) \<Longrightarrow>
   api_case mv s =
     warn (''[useCondition] case() called without match(). '' @
           ''Use match() first to set the value to compare against.'') s"
  by (simp add: api_case_def)

lemma api_case_return:
  "isInMatchMode (meta s) \<Longrightarrow> comparator (meta s) (mvalue (meta s)) mv = Return r \<Longrightarrow>
   api_case mv s =
     push \<lparr>ctype = TMatch, condition = Some r, matchValue = Some mv, component = JNull,
           cid = ''case-'' @ string_of_nat (Suc (conditionIdCounter s))\<rparr>
       (s\<lparr>conditionIdCounter := Suc (conditionIdCounter s)\<rparr>)"
  by (simp add: api_case_def Let_def)

lemma api_case_throw:
  "isInMatchMode (meta s) \<Longrightarrow> comparator (meta s) (mvalue (meta s)) mv = Throw e \<Longrightarrow>
   api_case mv s =
     push \<lparr>ctype = TMatch, condition = Some (JBool False), matchValue = Some mv,
           component = JNull,
           cid = ''case-'' @ string_of_nat (Suc (conditionIdCounter s))\<rparr>
       ((error ''[useCondition] Comparator function threw an error:'' e s)
          \<lparr>conditionIdCounter := Suc (conditionIdCounter s)\<rparr>)"
  by (simp add: api_case_def Let_def)

lemma api_case_meta [simp]: "meta (api_case mv s) = meta s"
  by (simp add: api_case_def Let_def split: completion.splits)

lemma wf_api_case: "well_formed s \<Longrightarrow> well_formed (api_case mv s)"
  by (simp add: api_case_def Let_def wf_push split: completion.splits)

lemma view_api_case:
  "well_formed s \<Longrightarrow>
   view (api_case mv s) =
     (if isInMatchMode (meta s) then
        view s @ [\<lparr>ctype = TMatch,
                   condition = Some (outcome (comparator (meta s) (mvalue (meta s)) mv)),
                   matchValue = Some mv, component = JNull,
                   cid = ''case-'' @ string_of_nat (Suc (conditionIdCounter s))\<rparr>]
      else view s)"
  by (simp add: api_case_def Let_def view_push split: completion.splits)

lemma counter_api_case:
  "conditionIdCounter (api_case mv s) =
     (if isInMatchMode (meta s) then Suc (conditionIdCounter s) else conditionIdCounter s)"
  by (simp add: api_case_def Let_def split: completion.splits)


subsection \<open>otherwise\<close>

lemma api_otherwise_fields [simp]:
  "heap (snd (api_otherwise d s)) = heap s"
  "conditions (snd (api_otherwise d s)) = conditions s"
  "conditionIdCounter (snd (api_otherwise d s)) = conditionIdCounter s"
  by (simp_all add: api_otherwise_def Let_def split: option.splits prod.splits)

lemma api_otherwise_context [simp]:
  "mvalue (meta (snd (api_otherwise d s))) = mvalue (meta s)"
  "comparator (meta (snd (api_otherwise d s))) = comparator (meta s)"
  "isInMatchMode (meta (snd (api_otherwise d s))) = isInMatchMode (meta s)"
  by (simp_all add: api_otherwise_def Let_def split: option.splits prod.splits)

lemma view_api_otherwise [simp]: "view (snd (api_otherwise d s)) = view s"
  by (rule view_cong) simp_all

lemma wf_api_otherwise [simp]: "well_formed (snd (api_otherwise d s)) = well_formed s"
  by (rule wf_cong) simp_all

lemma api_otherwise_result:
  "fst (api_otherwise d s) =
     (case find selectable (view s) of
        Some c \<Rightarrow> component c
      | None \<Rightarrow>
          (case find (\<lambda>c. ctype c = TFallback) (view s) of
             Some f \<Rightarrow> if component f \<noteq> JNull then component f else default_parameter d
           | None \<Rightarrow> default_parameter d))"
proof -
  have fb: "find (\<lambda>c. ctype c = TFallback) (view s) =
            map_option (\<lambda>a. heap s ! a)
              (find (\<lambda>a. ctype (heap s ! a) = TFallback) (conditions s))"
    by (simp add: find_fallback_view)
  show ?thesis
    unfolding fb
    by (simp add: api_otherwise_def Let_def first_match_view
        split: option.splits)
qed

lemma api_otherwise_index:
  "matchedIndex (meta (snd (api_otherwise d s))) =
     (case find selectable (view s) of
        Some c \<Rightarrow> int (length (takeWhile (\<lambda>c. \<not> selectable c) (view s)))
      | None \<Rightarrow> - 1)"
  by (simp add: api_otherwise_def Let_def first_match_view split: option.splits)

lemma api_otherwise_console:
  "console (snd (api_otherwise d s)) =
     (if length (filter incomplete (view s)) > 0 then
        console s @
          [Warn (''[useCondition] Found '' @ string_of_nat (length (filter incomplete (view s))) @
                 '' incomplete condition(s). These will be ignored.'')]
      else console s)"
  by (simp add: api_otherwise_def Let_def filter_incomplete_view split: option.splits)


subsection \<open>then, render and fallback on the content of the chain\<close>

lemma api_then_fields [simp]:
  "conditions (api_then p s) = conditions s"
  "meta (api_then p s) = meta s"
  "conditionIdCounter (api_then p s) = conditionIdCounter s"
  by (simp_all add: api_then_def validateChaining_def lastCondition_def)

lemma api_render_fields [simp]:
  "conditions (api_render p s) = conditions s"
  "meta (api_render p s) = meta s"
  "conditionIdCounter (api_render p s) = conditionIdCounter s"
  by (simp_all add: api_render_def validateChaining_def lastCondition_def)

lemma wf_api_then [simp]: "well_formed (api_then p s) = well_formed s"
  by (simp add: api_then_def validateChaining_def lastCondition_def)

lemma wf_api_render [simp]: "well_formed (api_render p s) = well_formed s"
  by (simp add: api_render_def validateChaining_def lastCondition_def)

lemma view_api_then:
  assumes "well_formed s"
  shows "view (api_then p s) =
     (if view s \<noteq> [] \<and> ctype (last (view s)) = TWhen then
        butlast (view s) @ [(last (view s))\<lparr>component := p\<rparr>]
      else view s)"
proof (cases "conditions s = []")
  case True
  then show ?thesis by (simp add: api_then_empty)
next
  case False
  show ?thesis
  proof (cases "ctype (heap s ! last (conditions s)) = TWhen")
    case True
    have "view (set_component (last (conditions s)) p s) =
          butlast (view s) @ [(last (view s))\<lparr>component := p\<rparr>]"
      using assms False by (rule view_set_component_last)
    moreover have "view (set_component (last (conditions s)) p (warn m s)) =
          view (set_component (last (conditions s)) p s)" for m
      by (rule view_cong) simp_all
    ultimately show ?thesis
      using False True by (simp add: api_then_ok last_view)
  next
    case wrong: False
    then show ?thesis
      using False by (simp add: api_then_wrong_type last_view)
  qed
qed

lemma view_api_render:
  assumes "well_formed s"
  shows "view (api_render p s) =
     (if view s \<noteq> [] \<and> ctype (last (view s)) = TMatch then
        butlast (view s) @ [(last (view s))\<lparr>component := p\<rparr>]
      else view s)"
proof (cases "conditions s = []")
  case True
  then show ?thesis by (simp add: api_render_empty)
next
  case False
  show ?thesis
  proof (cases "ctype (heap s ! last (conditions s)) = TMatch")
    case True
    have "view (set_component (last (conditions s)) p s) =
          butlast (view s) @ [(last (view s))\<lparr>component := p\<rparr>]"
      using assms False by (rule view_set_component_last)
    moreover have "view (set_component (last (conditions s)) p (warn m s)) =
          view (set_component (last (conditions s)) p s)" for m
      by (rule view_cong) simp_all
    ultimately show ?thesis
      using False True by (simp add: api_render_ok last_view)
  next
    case wrong: False
    then show ?thesis
      using False by (simp add: api_render_wrong_type last_view)
  qed
qed

lemma api_fallback_fields [simp]:
  "meta (api_fallback p s) = meta s"
  by (simp add: api_fallback_def Let_def split: option.splits)

lemma wf_api_fallback: "well_formed s \<Longrightarrow> well_formed (api_fallback p s)"
  by (simp add: api_fallback_def Let_def wf_push split: option.splits)

lemma fallback_index_conditions:
  "fallback_index (view s) =
   length (takeWhile (\<lambda>a. ctype (heap s ! a) \<noteq> TFallback) (conditions s))"
  by (simp add: fallback_index_def view_def deref_def takeWhile_map_length)

lemma api_fallback_existing:
  assumes "find (\<lambda>a. ctype (heap s ! a) = TFallback) (conditions s) = Some a"
  shows "api_fallback p s =
     set_component a p
       (warn (''[useCondition] Multiple fallback() calls detected. '' @
              ''Only the last one will be used.'') s)"
  using assms by (simp add: api_fallback_def)

lemma api_fallback_new:
  assumes "find (\<lambda>a. ctype (heap s ! a) = TFallback) (conditions s) = None"
  shows "api_fallback p s =
     push \<lparr>ctype = TFallback, condition = None, matchValue = None, component = p,
           cid = ''fallback-'' @ string_of_nat (Suc (conditionIdCounter s))\<rparr>
       (s\<lparr>conditionIdCounter := Suc (conditionIdCounter s)\<rparr>)"
  using assms by (simp add: api_fallback_def Let_def)

lemma find_fallback_None:
  "(find (\<lambda>a. ctype (heap s ! a) = TFallback) (conditions s) = None) =
   (\<forall>c \<in> set (view s). ctype c \<noteq> TFallback)"
  by (auto simp: find_None_iff view_def deref_def)

lemma view_api_fallback:
  assumes "well_formed s"
  shows "view (api_fallback p s) =
     (if \<exists>c \<in> set (view s). ctype c = TFallback then
        (view s)[fallback_index (view s) :=
                   (view s ! fallback_index (view s))\<lparr>component := p\<rparr>]
      else
        view s @ [\<lparr>ctype = TFallback, condition = None, matchValue = None, component = p,
                   cid = ''fallback-'' @ string_of_nat (Suc (conditionIdCounter s))\<rparr>])"
proof (cases "find (\<lambda>a. ctype (heap s ! a) = TFallback) (conditions s)")
  case None
  then have "\<forall>c \<in> set (view s). ctype c \<noteq> TFallback"
    by (simp add: find_fallback_None)
  then show ?thesis
    using assms None by (simp add: api_fallback_new view_push)
next
  case (Some a)
  let ?k = "fallback_index (view s)"
  from find_Some_takeWhile [OF Some]
  have k: "?k < length (conditions s)" and a: "conditions s ! ?k = a"
    by (simp_all add: fallback_index_conditions)
  have ex: "\<exists>c \<in> set (view s). ctype c = TFallback"
    using Some find_fallback_None [of s] by auto
  have "view (set_component a p (warn m s)) = view (set_component a p s)" for m
    by (rule view_cong) simp_all
  moreover have "view (set_component a p s) =
      (view s)[?k := (view s ! ?k)\<lparr>component := p\<rparr>]"
    using view_set_component [OF assms k, of p] a by simp
  ultimately show ?thesis
    using ex Some by (simp add: api_fallback_existing)
qed

lemma counter_api_fallback:
  "conditionIdCounter (api_fallback p s) =
     (if \<exists>c \<in> set (view s). ctype c = TFallback then conditionIdCounter s
      else Suc (conditionIdCounter s))"
proof (cases "find (\<lambda>a. ctype (heap s ! a) = TFallback) (conditions s)")
  case None
  then show ?thesis
    using find_fallback_None [of s] by (simp add: api_fallback_new)
next
  case (Some a)
  then show ?thesis
    using find_fallback_None [of s] by (auto simp: api_fallback_existing)
qed


lemma find_selectable_first:
  assumes "i < length v" "selectable (v ! i)" "\<forall>j<i. \<not> selectable (v ! j)"
  shows "find selectable v = Some (v ! i) \<and> length (takeWhile (\<lambda>c. \<not> selectable c) v) = i"
proof -
  have "find selectable v = Some (v ! i)"
    using assms by (auto simp: find_Some_iff)
  from find_Some_takeWhile [OF this]
  have lt: "length (takeWhile (\<lambda>c. \<not> selectable c) v) < length v"
    and eq: "v ! length (takeWhile (\<lambda>c. \<not> selectable c) v) = v ! i" by simp_all
  let ?k = "length (takeWhile (\<lambda>c. \<not> selectable c) v)"
  have "\<not> ?k < i" using assms(3) eq assms(2) by metis
  moreover have "\<not> i < ?k"
  proof
    assume "i < ?k"
    then have "v ! i \<in> set (takeWhile (\<lambda>c. \<not> selectable c) v)"
      by (metis nth_mem takeWhile_nth)
    then show False using assms(2) by (auto dest: set_takeWhileD)
  qed
  ultimately have "?k = i" by simp
  with \<open>find selectable v = Some (v ! i)\<close> show ?thesis by simp
qed

subsection \<open>The example states\<close>

text \<open>The states used as examples below are the ones their chains build on a new handle.\<close>

lemma api_when_literal:
  "api_when (JBool b) \<lparr>heap = h, conditionIdCounter = n, console = out, conditions = cs, meta = m\<rparr> =
     \<lparr>heap = h @ [\<lparr>ctype = TWhen, condition = Some (JBool b), matchValue = None,
                    component = JNull, cid = ''when-'' @ string_of_nat (Suc n)\<rparr>],
      conditionIdCounter = Suc n, console = out, conditions = cs @ [length h], meta = m\<rparr>"
  by (simp add: api_when_def push_def Let_def)

lemma three_whens_reached:
  "snd (run [When (JBool False), Then (JStr ''A''), When (JBool True), Then (JStr ''B''),
             When (JBool True), Then (JStr ''C'')] (useCondition [] 0 [])) = three_whens"
proof -
  let ?r1 = "\<lparr>ctype = TWhen, condition = Some (JBool False), matchValue = None,
              component = JStr ''A'', cid = ''when-1''\<rparr>"
  let ?r2 = "\<lparr>ctype = TWhen, condition = Some (JBool True), matchValue = None,
              component = JStr ''B'', cid = ''when-2''\<rparr>"
  let ?r3 = "\<lparr>ctype = TWhen, condition = Some (JBool True), matchValue = None,
              component = JStr ''C'', cid = ''when-3''\<rparr>"
  let ?s1 = "\<lparr>heap = [?r1\<lparr>component := JNull\<rparr>], conditionIdCounter = 1, console = [],
              conditions = [0], meta = initial_meta\<rparr>"
  let ?s2 = "\<lparr>heap = [?r1], conditionIdCounter = 1, console = [],
              conditions = [0], meta = initial_meta\<rparr>"
  let ?s3 = "\<lparr>heap = [?r1, ?r2\<lparr>component := JNull\<rparr>], conditionIdCounter = 2, console = [],
              conditions = [0, 1], meta = initial_meta\<rparr>"
  let ?s4 = "\<lparr>heap = [?r1, ?r2], conditionIdCounter = 2, console = [],
              conditions = [0, 1], meta = initial_meta\<rparr>"
  let ?s5 = "\<lparr>heap = [?r1, ?r2, ?r3\<lparr>component := JNull\<rparr>], conditionIdCounter = 3,
              console = [], conditions = [0, 1, 2], meta = initial_meta\<rparr>"
  have 1: "api_when (JBool False) (useCondition [] 0 []) = ?s1"
    by (simp add: useCondition_def api_when_literal string_of_nat.simps digit_def)
  have 2: "api_then (JStr ''A'') ?s1 = ?s2"
    by (simp add: api_then_ok set_component_def)
  have 3: "api_when (JBool True) ?s2 = ?s3"
    by (simp add: api_when_literal string_of_nat.simps digit_def)
  have 4: "api_then (JStr ''B'') ?s3 = ?s4"
    by (simp add: api_then_ok set_component_def)
  have 5: "api_when (JBool True) ?s4 = ?s5"
    by (simp add: api_when_literal string_of_nat.simps digit_def)
  have 6: "api_then (JStr ''C'') ?s5 = three_whens"
    by (simp add: api_then_ok set_component_def three_whens_def)
  show ?thesis
    by (simp only: run.simps run_call.simps split_conv snd_conv 1 2 3 4 5 6)
qed


lemma api_match_literal:
  "api_match v (Callable f)
     \<lparr>heap = h, conditionIdCounter = n, console = out, conditions = cs,
      meta = \<lparr>matchedIndex = i, mvalue = v0, comparator = f0, isInMatchMode = False\<rparr>\<rparr> =
     \<lparr>heap = h, conditionIdCounter = n, console = out, conditions = cs,
      meta = \<lparr>matchedIndex = i, mvalue = v, comparator = f, isInMatchMode = True\<rparr>\<rparr>"
  "api_match v Omitted
     \<lparr>heap = h, conditionIdCounter = n, console = out, conditions = cs,
      meta = \<lparr>matchedIndex = i, mvalue = v0, comparator = f0, isInMatchMode = False\<rparr>\<rparr> =
     \<lparr>heap = h, conditionIdCounter = n, console = out, conditions = cs,
      meta = \<lparr>matchedIndex = i, mvalue = v, comparator = defaultComparator,
              isInMatchMode = True\<rparr>\<rparr>"
  by (simp_all add: api_match_def Let_def)

lemma throwing_match_reached:
  "api_match (JStr ''test'') (Callable (\<lambda>a b. Throw (JStr ''Comparator error'')))
     (useCondition [] 0 []) = throwing_match"
  by (simp add: useCondition_def initial_meta_def api_match_literal throwing_match_def)

lemma truthy_match_reached:
  "api_match (JStr ''abc'') (Callable (\<lambda>a b. Return (if a = b then JStr ''yes'' else JNum 0)))
     (useCondition [] 0 []) = truthy_match"
  by (simp add: useCondition_def initial_meta_def api_match_literal truthy_match_def)

lemma match_user_reached:
  "snd (run [Match (JStr ''user'') Omitted, Case (JStr ''admin''), Render (JStr ''A''),
             Case (JStr ''user''), Render (JStr ''B'')] (useCondition [] 0 [])) = match_user"
proof -
  let ?m = "\<lparr>matchedIndex = - 1, mvalue = JStr ''user'', comparator = defaultComparator,
             isInMatchMode = True\<rparr>"
  let ?r1 = "\<lparr>ctype = TMatch, condition = Some (JBool False),
              matchValue = Some (JStr ''admin''), component = JStr ''A'', cid = ''case-1''\<rparr>"
  let ?r2 = "\<lparr>ctype = TMatch, condition = Some (JBool True),
              matchValue = Some (JStr ''user''), component = JStr ''B'', cid = ''case-2''\<rparr>"
  let ?s0 = "\<lparr>heap = [], conditionIdCounter = 0, console = [], conditions = [], meta = ?m\<rparr>"
  let ?s1 = "\<lparr>heap = [?r1\<lparr>component := JNull\<rparr>], conditionIdCounter = 1, console = [],
              conditions = [0], meta = ?m\<rparr>"
  let ?s2 = "\<lparr>heap = [?r1], conditionIdCounter = 1, console = [],
              conditions = [0], meta = ?m\<rparr>"
  let ?s3 = "\<lparr>heap = [?r1, ?r2\<lparr>component := JNull\<rparr>], conditionIdCounter = 2, console = [],
              conditions = [0, 1], meta = ?m\<rparr>"
  have 0: "api_match (JStr ''user'') Omitted (useCondition [] 0 []) = ?s0"
    by (simp add: useCondition_def initial_meta_def api_match_literal)
  have c1: "comparator ?m (mvalue ?m) (JStr ''admin'') = Return (JBool False)"
    by (simp add: defaultComparator_def Number_isNaN_def strict_equals_def)
  have c2: "comparator ?m (mvalue ?m) (JStr ''user'') = Return (JBool True)"
    by (simp add: defaultComparator_def Number_isNaN_def strict_equals_def)
  have 1: "api_case (JStr ''admin'') ?s0 = ?s1"
    using c1 by (simp add: api_case_return push_def string_of_nat.simps digit_def)
  have 2: "api_render (JStr ''A'') ?s1 = ?s2"
    by (simp add: api_render_ok set_component_def)
  have 3: "api_case (JStr ''user'') ?s2 = ?s3"
    using c2 by (simp add: api_case_return push_def string_of_nat.simps digit_def)
  have 4: "api_render (JStr ''B'') ?s3 = match_user"
    by (simp add: api_render_ok set_component_def match_user_def)
  show ?thesis
    by (simp only: run.simps run_call.simps split_conv snd_conv 0 1 2 3 4)
qed

lemma when_true_reached: "api_when (JBool True) (useCondition [] 0 []) = when_true"
  by (simp add: api_when_def when_true_def useCondition_def push_def Let_def
      string_of_nat.simps digit_def)

lemma when_false_then_A_reached:
  "api_then (JStr ''A'') (api_when (JBool False) (useCondition [] 0 [])) = when_false_then_A"
  by (simp add: api_when_def api_then_def validateChaining_def lastCondition_def
      set_component_def when_false_then_A_def useCondition_def push_def Let_def
      string_of_nat.simps digit_def)

section \<open>Resolution\<close>

text \<open>
  Claim C1. For every chain state, \<^verbatim>\<open>otherwise(default)\<close> returns the payload of the
  first record, in array order, of type \<open>when\<close> or \<open>match\<close> whose condition is truthy and
  whose payload is not \<^verbatim>\<open>null\<close>, and stores its position in \<open>matchedIndex\<close>. When no
  record qualifies, \<open>matchedIndex\<close> stays \<open>-1\<close> and the result is the payload of the
  \<open>fallback\<close> record if there is one and its payload is not \<^verbatim>\<open>null\<close>, and the default
  otherwise, which is \<^verbatim>\<open>null\<close> when the caller gives none (or gives \<^verbatim>\<open>undefined\<close>, which a
  default parameter takes for none). The records are not changed.
\<close>

theorem otherwise_first_match_wins:
  "(\<forall>i < length (view s).
      selectable (view s ! i) \<and> (\<forall>j<i. \<not> selectable (view s ! j)) \<longrightarrow>
        fst (api_otherwise d s) = component (view s ! i) \<and>
        getMatchedIndex (snd (api_otherwise d s)) = int i) \<and>
   ((\<forall>c \<in> set (view s). \<not> selectable c) \<longrightarrow>
      getMatchedIndex (snd (api_otherwise d s)) = - 1 \<and>
      fst (api_otherwise d s) =
        (case find (\<lambda>c. ctype c = TFallback) (view s) of
           Some f \<Rightarrow> if component f \<noteq> JNull then component f else default_parameter d
         | None \<Rightarrow> default_parameter d)) \<and>
   view (snd (api_otherwise d s)) = view s \<and>
   default_parameter None = JNull"
proof (intro conjI allI impI)
  fix i
  assume i: "i < length (view s)"
    and sel: "selectable (view s ! i) \<and> (\<forall>j<i. \<not> selectable (view s ! j))"
  from find_selectable_first [OF i] sel
  have f: "find selectable (view s) = Some (view s ! i)"
    and k: "length (takeWhile (\<lambda>c. \<not> selectable c) (view s)) = i" by simp_all
  show "fst (api_otherwise d s) = component (view s ! i)"
    by (simp add: api_otherwise_result f)
  show "getMatchedIndex (snd (api_otherwise d s)) = int i"
    by (simp add: getMatchedIndex_def api_otherwise_index f k)
next
  assume none: "\<forall>c \<in> set (view s). \<not> selectable c"
  then have f: "find selectable (view s) = None"
    by (simp add: find_None_iff)
  show "getMatchedIndex (snd (api_otherwise d s)) = - 1"
    by (simp add: getMatchedIndex_def api_otherwise_index f)
  show "fst (api_otherwise d s) =
        (case find (\<lambda>c. ctype c = TFallback) (view s) of
           Some f \<Rightarrow> if component f \<noteq> JNull then component f else default_parameter d
         | None \<Rightarrow> default_parameter d)"
    by (simp add: api_otherwise_result f)
qed simp_all

lemma view_three_whens:
  "view three_whens =
     [\<lparr>ctype = TWhen, condition = Some (JBool False), matchValue = None,
       component = JStr ''A'', cid = ''when-1''\<rparr>,
      \<lparr>ctype = TWhen, condition = Some (JBool True), matchValue = None,
       component = JStr ''B'', cid = ''when-2''\<rparr>,
      \<lparr>ctype = TWhen, condition = Some (JBool True), matchValue = None,
       component = JStr ''C'', cid = ''when-3''\<rparr>]"
  by (simp add: three_whens_def view_def deref_def)

theorem otherwise_first_match_wins_witness:
  "fst (api_otherwise None three_whens) = JStr ''B'' \<and>
   getMatchedIndex (snd (api_otherwise None three_whens)) = 1 \<and>
   fst (api_otherwise (Some (JStr ''D'')) (useCondition [] 0 [])) = JStr ''D''"
proof -
  have i: "1 < length (view three_whens)"
    by (simp only: view_three_whens) simp
  have sel: "selectable (view three_whens ! 1) \<and>
             (\<forall>j<1. \<not> selectable (view three_whens ! j))"
    by (simp only: view_three_whens) (simp add: selectable_def)
  have c: "component (view three_whens ! Suc 0) = JStr ''B''"
    by (simp only: view_three_whens) simp
  have e: "view (useCondition [] 0 []) = []"
    by (simp add: useCondition_def)
  from otherwise_first_match_wins [of three_whens None, THEN conjunct1, rule_format, OF i sel]
    otherwise_first_match_wins [of "useCondition [] 0 []" "Some (JStr ''D'')",
      THEN conjunct2, THEN conjunct1]
  show ?thesis
    by (simp add: c e)
qed

section \<open>The default comparator\<close>

text \<open>
  Claim C8. The default comparator returns \<^verbatim>\<open>true\<close> exactly when both arguments are
  \<open>NaN\<close> or the two are strictly equal, and on a handle with an empty chain
  \<^verbatim>\<open>match(NaN).case(NaN).render(A).otherwise()\<close> returns \<open>A\<close> (selected at index 0 when
  \<open>A\<close> is not \<^verbatim>\<open>null\<close>).
\<close>

theorem default_comparator_nan_equal:
  "defaultComparator a b = Return (JBool ((a = JNaN \<and> b = JNaN) \<or> (a = b \<and> a \<noteq> JNaN))) \<and>
   strict_equals a b = (a = b \<and> a \<noteq> JNaN) \<and>
   (conditions s = [] \<longrightarrow>
      fst (api_otherwise None (api_render A (api_case JNaN (api_match JNaN Omitted s)))) = A \<and>
      (A \<noteq> JNull \<longrightarrow>
         getMatchedIndex (snd (api_otherwise None
           (api_render A (api_case JNaN (api_match JNaN Omitted s))))) = 0))"
proof (intro conjI impI)
  show "defaultComparator a b = Return (JBool ((a = JNaN \<and> b = JNaN) \<or> (a = b \<and> a \<noteq> JNaN)))"
    by (auto simp: defaultComparator_def Number_isNaN_def strict_equals_def)
  show "strict_equals a b = (a = b \<and> a \<noteq> JNaN)"
    by (simp add: strict_equals_def)
next
  assume e: "conditions s = []"
  let ?s1 = "api_match JNaN Omitted s"
  let ?s2 = "api_case JNaN ?s1"
  let ?s3 = "api_render A ?s2"
  let ?r = "\<lparr>ctype = TMatch, condition = Some (JBool True), matchValue = Some JNaN,
             component = JNull,
             cid = ''case-'' @ string_of_nat (Suc (conditionIdCounter s))\<rparr>"
  have wf1: "well_formed ?s1" using e by (simp add: well_formed_def)
  have v2: "view ?s2 = [?r]"
    using e by (simp add: view_api_case [OF wf1] defaultComparator_def Number_isNaN_def)
  have wf2: "well_formed ?s2" using wf1 by (rule wf_api_case)
  have v3: "view ?s3 = [?r\<lparr>component := A\<rparr>]"
    by (simp add: view_api_render [OF wf2] v2)
  have "fst (api_otherwise None ?s3) =
        (if selectable (?r\<lparr>component := A\<rparr>) then A else JNull)"
    by (simp add: api_otherwise_result v3)
  then show "fst (api_otherwise None ?s3) = A"
    by (simp add: selectable_def)
  show "getMatchedIndex (snd (api_otherwise None ?s3)) = 0" if "A \<noteq> JNull"
    using that by (simp add: getMatchedIndex_def api_otherwise_index v3 selectable_def)
qed

theorem default_comparator_nan_equal_witness:
  "conditions (useCondition [] 0 []) = [] \<and>
   fst (api_otherwise None (api_render (JStr ''A'')
          (api_case JNaN (api_match JNaN Omitted (useCondition [] 0 []))))) = JStr ''A''"
  using default_comparator_nan_equal [of JNaN JNaN "useCondition [] 0 []" "JStr ''A''"]
  by (simp add: useCondition_def)

section \<open>Attaching a payload\<close>

text \<open>
  Claim C5. \<^verbatim>\<open>then(p)\<close> on an empty chain, or on a chain whose last record is not of type
  \<open>when\<close>, adds one warning to the console and changes nothing else in the state.
  Otherwise it writes \<open>p\<close> to the \<open>component\<close> of the last record, after a warning about
  multiple calls when that payload was not \<^verbatim>\<open>null\<close>; nothing else changes, and on a
  well-formed state the content of the chain is the old one with the payload of its last
  record replaced. \<^verbatim>\<open>render(p)\<close> does the same with type \<open>match\<close>.
\<close>

theorem then_render_misuse_atomic:
  "(conditions s = [] \<longrightarrow>
      api_then p s =
        s\<lparr>console := console s @
          [Warn (''[useCondition] then() called without a preceding condition. Use '' @
                 quoted ''when()'' @ '' or '' @ quoted ''case()'' @ '' first.'')]\<rparr> \<and>
      api_render p s =
        s\<lparr>console := console s @
          [Warn (''[useCondition] render() called without a preceding condition. Use '' @
                 quoted ''when()'' @ '' or '' @ quoted ''case()'' @ '' first.'')]\<rparr>) \<and>
   (conditions s \<noteq> [] \<and> ctype (heap s ! last (conditions s)) \<noteq> TWhen \<longrightarrow>
      api_then p s =
        s\<lparr>console := console s @
          [Warn (''[useCondition] then() should follow '' @ quoted ''when()'' @
                 '' but found '' @
                 quoted (type_name (ctype (heap s ! last (conditions s)))) @ ''.'')]\<rparr>) \<and>
   (conditions s \<noteq> [] \<and> ctype (heap s ! last (conditions s)) \<noteq> TMatch \<longrightarrow>
      api_render p s =
        s\<lparr>console := console s @
          [Warn (''[useCondition] render() should follow '' @ quoted ''case()'' @
                 '' but found '' @
                 quoted (type_name (ctype (heap s ! last (conditions s)))) @ ''.'')]\<rparr>) \<and>
   (conditions s \<noteq> [] \<and> ctype (heap s ! last (conditions s)) = TWhen \<longrightarrow>
      api_then p s =
        s\<lparr>heap := (heap s)[last (conditions s) :=
                     (heap s ! last (conditions s))\<lparr>component := p\<rparr>],
          console := console s @
            (if component (heap s ! last (conditions s)) \<noteq> JNull then
               [Warn (''[useCondition] Multiple then() calls detected. '' @
                      ''Only the last one will be used.'')]
             else [])\<rparr>) \<and>
   (conditions s \<noteq> [] \<and> ctype (heap s ! last (conditions s)) = TMatch \<longrightarrow>
      api_render p s =
        s\<lparr>heap := (heap s)[last (conditions s) :=
                     (heap s ! last (conditions s))\<lparr>component := p\<rparr>],
          console := console s @
            (if component (heap s ! last (conditions s)) \<noteq> JNull then
               [Warn (''[useCondition] Multiple render() calls detected. '' @
                      ''Only the last one will be used.'')]
             else [])\<rparr>) \<and>
   (well_formed s \<and> conditions s \<noteq> [] \<longrightarrow>
      last (view s) = heap s ! last (conditions s) \<and>
      view (s\<lparr>heap := (heap s)[last (conditions s) :=
                         (heap s ! last (conditions s))\<lparr>component := p\<rparr>]\<rparr>) =
        butlast (view s) @ [(last (view s))\<lparr>component := p\<rparr>])"
proof (intro conjI impI)
  assume "well_formed s \<and> conditions s \<noteq> []"
  then have wf: "well_formed s" and ne: "conditions s \<noteq> []" by simp_all
  show "last (view s) = heap s ! last (conditions s)"
    using ne by (rule last_view)
  show "view (s\<lparr>heap := (heap s)[last (conditions s) :=
                         (heap s ! last (conditions s))\<lparr>component := p\<rparr>]\<rparr>) =
        butlast (view s) @ [(last (view s))\<lparr>component := p\<rparr>]"
    using view_set_component_last [OF wf ne, of p] by (simp add: set_component_def)
qed (simp_all add: api_then_empty api_render_empty api_then_wrong_type api_render_wrong_type
       api_then_ok api_render_ok warn_def set_component_def)

theorem then_render_misuse_atomic_witness:
  "console (api_then (JStr ''Z'') (useCondition [] 0 [])) =
     [Warn (''[useCondition] then() called without a preceding condition. Use '' @
            quoted ''when()'' @ '' or '' @ quoted ''case()'' @ '' first.'')] \<and>
   heap (api_render (JStr ''Z'') three_whens) = heap three_whens \<and>
   component (heap (api_then (JStr ''Z'') three_whens) ! 2) = JStr ''Z'' \<and>
   heap (api_then (JStr ''Z'') match_user) = heap match_user \<and>
   component (heap (api_render (JStr ''Z'') match_user) ! 1) = JStr ''Z'' \<and>
   component (last (view (api_render (JStr ''Z'') match_user))) = JStr ''Z''"
proof -
  have a: "conditions (useCondition [] 0 []) = []"
    by (simp add: useCondition_def)
  have b: "conditions three_whens \<noteq> [] \<and>
           ctype (heap three_whens ! last (conditions three_whens)) = TWhen"
    by (simp add: three_whens_def)
  then have b': "conditions three_whens \<noteq> [] \<and>
           ctype (heap three_whens ! last (conditions three_whens)) \<noteq> TMatch"
    by simp
  have c: "conditions match_user \<noteq> [] \<and>
           ctype (heap match_user ! last (conditions match_user)) = TMatch"
    by (simp add: match_user_def)
  then have c': "conditions match_user \<noteq> [] \<and>
           ctype (heap match_user ! last (conditions match_user)) \<noteq> TWhen"
    by simp
  have d: "well_formed match_user \<and> conditions match_user \<noteq> []"
    by (simp add: match_user_def well_formed_def)
  note t1 = then_render_misuse_atomic [of "useCondition [] 0 []" "JStr ''Z''"]
  note t2 = then_render_misuse_atomic [of three_whens "JStr ''Z''"]
  note t3 = then_render_misuse_atomic [of match_user "JStr ''Z''"]
  have 1: "console (api_then (JStr ''Z'') (useCondition [] 0 [])) =
     [Warn (''[useCondition] then() called without a preceding condition. Use '' @
            quoted ''when()'' @ '' or '' @ quoted ''case()'' @ '' first.'')]"
    using t1 [THEN conjunct1, rule_format, OF a, THEN conjunct1]
    by (simp add: useCondition_def)
  have 2: "heap (api_render (JStr ''Z'') three_whens) = heap three_whens"
    using t2 [THEN conjunct2, THEN conjunct2, THEN conjunct1, rule_format, OF b'] by simp
  have 3: "component (heap (api_then (JStr ''Z'') three_whens) ! 2) = JStr ''Z''"
    using t2 [THEN conjunct2, THEN conjunct2, THEN conjunct2, THEN conjunct1, rule_format, OF b]
    by (simp add: three_whens_def)
  have 4: "heap (api_then (JStr ''Z'') match_user) = heap match_user"
    using t3 [THEN conjunct2, THEN conjunct1, rule_format, OF c'] by simp
  have r: "api_render (JStr ''Z'') match_user =
        match_user\<lparr>heap := (heap match_user)[last (conditions match_user) :=
                     (heap match_user ! last (conditions match_user))\<lparr>component := JStr ''Z''\<rparr>],
          console := console match_user @
            (if component (heap match_user ! last (conditions match_user)) \<noteq> JNull then
               [Warn (''[useCondition] Multiple render() calls detected. '' @
                      ''Only the last one will be used.'')]
             else [])\<rparr>"
    using t3 [THEN conjunct2, THEN conjunct2, THEN conjunct2, THEN conjunct2, THEN conjunct1,
              rule_format, OF c] .
  have 5: "component (heap (api_render (JStr ''Z'') match_user) ! 1) = JStr ''Z''"
    unfolding r by (simp add: match_user_def)
  have 6: "component (last (view (api_render (JStr ''Z'') match_user))) = JStr ''Z''"
    unfolding r
    using t3 [THEN conjunct2, THEN conjunct2, THEN conjunct2, THEN conjunct2, THEN conjunct2,
              rule_format, OF d, THEN conjunct2]
    by simp
  from 1 2 3 4 5 6 show ?thesis by blast
qed

section \<open>A comparator that throws\<close>

text \<open>
  Claim C4. When the match context is open and the comparator throws on the subject and
  the value of \<^verbatim>\<open>case(v)\<close>, the call still returns a state: it is the old one with one
  error on the console and one new \<open>match\<close> record at the end, with condition \<^verbatim>\<open>false\<close>
  and payload \<^verbatim>\<open>null\<close>. Store, array and counter are the ones that a comparator returning
  \<^verbatim>\<open>false\<close> gives, and whatever \<^verbatim>\<open>render\<close> attaches, the record is never selected.
\<close>

theorem case_throwing_comparator_caught:
  "isInMatchMode (meta s) \<and> comparator (meta s) (mvalue (meta s)) v = Throw e \<longrightarrow>
     api_case v s =
       s\<lparr>heap := heap s @
            [\<lparr>ctype = TMatch, condition = Some (JBool False), matchValue = Some v,
              component = JNull,
              cid = ''case-'' @ string_of_nat (Suc (conditionIdCounter s))\<rparr>],
         conditionIdCounter := Suc (conditionIdCounter s),
         console := console s @
            [Error ''[useCondition] Comparator function threw an error:'' e],
         conditions := conditions s @ [length (heap s)]\<rparr> \<and>
     (let unsatisfied = s\<lparr>meta := (meta s)\<lparr>comparator := \<lambda>a b. Return (JBool False)\<rparr>\<rparr>
      in heap (api_case v s) = heap (api_case v unsatisfied) \<and>
         conditions (api_case v s) = conditions (api_case v unsatisfied) \<and>
         conditionIdCounter (api_case v s) = conditionIdCounter (api_case v unsatisfied)) \<and>
     (well_formed s \<longrightarrow>
        view (api_case v s) =
          view s @ [\<lparr>ctype = TMatch, condition = Some (JBool False), matchValue = Some v,
                     component = JNull,
                     cid = ''case-'' @ string_of_nat (Suc (conditionIdCounter s))\<rparr>] \<and>
        (\<forall>p. \<not> selectable (last (view (api_render p (api_case v s))))))"
proof (intro impI)
  assume h: "isInMatchMode (meta s) \<and> comparator (meta s) (mvalue (meta s)) v = Throw e"
  let ?r = "\<lparr>ctype = TMatch, condition = Some (JBool False), matchValue = Some v,
             component = JNull,
             cid = ''case-'' @ string_of_nat (Suc (conditionIdCounter s))\<rparr>"
  have eq: "api_case v s =
       s\<lparr>heap := heap s @ [?r],
         conditionIdCounter := Suc (conditionIdCounter s),
         console := console s @
            [Error ''[useCondition] Comparator function threw an error:'' e],
         conditions := conditions s @ [length (heap s)]\<rparr>"
    using h by (simp add: api_case_throw push_def error_def)
  have same: "let unsatisfied = s\<lparr>meta := (meta s)\<lparr>comparator := \<lambda>a b. Return (JBool False)\<rparr>\<rparr>
      in heap (api_case v s) = heap (api_case v unsatisfied) \<and>
         conditions (api_case v s) = conditions (api_case v unsatisfied) \<and>
         conditionIdCounter (api_case v s) = conditionIdCounter (api_case v unsatisfied)"
    using h by (simp add: Let_def api_case_def)
  have v: "view (api_case v s) = view s @ [?r]" if wf: "well_formed s"
    using h by (simp add: view_api_case [OF wf])
  have ns: "\<not> selectable (last (view (api_render p (api_case v s))))"
    if wf: "well_formed s" for p
  proof -
    have "well_formed (api_case v s)" using wf by (rule wf_api_case)
    from view_api_render [OF this, of p] v [OF wf]
    show ?thesis by (simp add: selectable_def)
  qed
  from eq same v ns show "api_case v s =
       s\<lparr>heap := heap s @ [?r],
         conditionIdCounter := Suc (conditionIdCounter s),
         console := console s @
            [Error ''[useCondition] Comparator function threw an error:'' e],
         conditions := conditions s @ [length (heap s)]\<rparr> \<and>
     (let unsatisfied = s\<lparr>meta := (meta s)\<lparr>comparator := \<lambda>a b. Return (JBool False)\<rparr>\<rparr>
      in heap (api_case v s) = heap (api_case v unsatisfied) \<and>
         conditions (api_case v s) = conditions (api_case v unsatisfied) \<and>
         conditionIdCounter (api_case v s) = conditionIdCounter (api_case v unsatisfied)) \<and>
     (well_formed s \<longrightarrow>
        view (api_case v s) = view s @ [?r] \<and>
        (\<forall>p. \<not> selectable (last (view (api_render p (api_case v s))))))"
    by blast
qed

theorem case_throwing_comparator_caught_witness:
  "console (api_case (JStr ''test'') throwing_match) =
     [Error ''[useCondition] Comparator function threw an error:'' (JStr ''Comparator error'')] \<and>
   view (api_case (JStr ''test'') throwing_match) =
     [\<lparr>ctype = TMatch, condition = Some (JBool False), matchValue = Some (JStr ''test''),
       component = JNull, cid = ''case-1''\<rparr>]"
proof -
  have h: "isInMatchMode (meta throwing_match) \<and>
           comparator (meta throwing_match) (mvalue (meta throwing_match)) (JStr ''test'') =
             Throw (JStr ''Comparator error'')"
    by (simp add: throwing_match_def)
  have wf: "well_formed throwing_match"
    by (simp add: throwing_match_def well_formed_def)
  note t = case_throwing_comparator_caught
             [of throwing_match "JStr ''test''" "JStr ''Comparator error''", rule_format, OF h]
  have 1: "console (api_case (JStr ''test'') throwing_match) =
     [Error ''[useCondition] Comparator function threw an error:'' (JStr ''Comparator error'')]"
    using t [THEN conjunct1] by (simp add: throwing_match_def)
  have 2: "view (api_case (JStr ''test'') throwing_match) =
     [\<lparr>ctype = TMatch, condition = Some (JBool False), matchValue = Some (JStr ''test''),
       component = JNull, cid = ''case-1''\<rparr>]"
    using t [THEN conjunct2, THEN conjunct2, rule_format, OF wf, THEN conjunct1]
    by (simp add: throwing_match_def view_def deref_def string_of_nat.simps digit_def)
  from 1 2 show ?thesis by blast
qed

section \<open>What case stores\<close>

lemma find_append_skip:
  "\<forall>x \<in> set xs. \<not> P x \<Longrightarrow> find P (xs @ ys) = find P ys"
  by (induction xs) simp_all

lemma takeWhile_append_skip:
  "\<forall>x \<in> set xs. \<not> P x \<Longrightarrow>
   length (takeWhile (\<lambda>x. \<not> P x) (xs @ ys)) = length xs + length (takeWhile (\<lambda>x. \<not> P x) ys)"
  by (induction xs) simp_all

lemma api_otherwise_last:
  assumes "view s = v @ [r]" "\<forall>c \<in> set v. \<not> selectable c"
  shows "selectable r \<Longrightarrow> fst (api_otherwise d s) = component r"
    and "selectable r \<Longrightarrow> getMatchedIndex (snd (api_otherwise d s)) = int (length v)"
    and "\<not> selectable r \<Longrightarrow> getMatchedIndex (snd (api_otherwise d s)) = - 1"
  using assms
  by (simp_all add: api_otherwise_result api_otherwise_index getMatchedIndex_def
      find_append_skip takeWhile_append_skip)

text \<open>
  Claim C10. \<^verbatim>\<open>case(v)\<close> stores the value \<open>r\<close> returned by the comparator as it is. With a
  payload \<open>p\<close> other than \<^verbatim>\<open>null\<close> attached and no selectable record before it,
  \<^verbatim>\<open>otherwise\<close> returns \<open>p\<close> at that index when \<open>r\<close> is truthy, and selects nothing when
  \<open>r\<close> is falsy. \<^verbatim>\<open>when(c)\<close> stores the boolean \<^verbatim>\<open>Boolean(c)\<close>.
\<close>

theorem case_keeps_comparator_value:
  "(well_formed s \<and> isInMatchMode (meta s) \<and>
    comparator (meta s) (mvalue (meta s)) v = Return r \<longrightarrow>
      view (api_case v s) =
        view s @ [\<lparr>ctype = TMatch, condition = Some r, matchValue = Some v,
                   component = JNull,
                   cid = ''case-'' @ string_of_nat (Suc (conditionIdCounter s))\<rparr>] \<and>
      (p \<noteq> JNull \<and> (\<forall>c \<in> set (view s). \<not> selectable c) \<longrightarrow>
         (truthy r \<longrightarrow>
            fst (api_otherwise d (api_render p (api_case v s))) = p \<and>
            getMatchedIndex (snd (api_otherwise d (api_render p (api_case v s)))) =
              int (length (view s))) \<and>
         (\<not> truthy r \<longrightarrow>
            getMatchedIndex (snd (api_otherwise d (api_render p (api_case v s)))) = - 1 \<and>
            (\<forall>c \<in> set (view (api_render p (api_case v s))). \<not> selectable c)))) \<and>
   (well_formed s \<longrightarrow>
      view (api_when c s) =
        view s @ [\<lparr>ctype = TWhen, condition = Some (JBool (truthy c)), matchValue = None,
                   component = JNull,
                   cid = ''when-'' @ string_of_nat (Suc (conditionIdCounter s))\<rparr>])"
proof (intro conjI impI)
  assume "well_formed s"
  then show "view (api_when c s) =
        view s @ [\<lparr>ctype = TWhen, condition = Some (JBool (truthy c)), matchValue = None,
                   component = JNull,
                   cid = ''when-'' @ string_of_nat (Suc (conditionIdCounter s))\<rparr>]"
    by (rule view_api_when)
next
  assume h: "well_formed s \<and> isInMatchMode (meta s) \<and>
    comparator (meta s) (mvalue (meta s)) v = Return r"
  let ?rec = "\<lparr>ctype = TMatch, condition = Some r, matchValue = Some v,
                   component = JNull,
                   cid = ''case-'' @ string_of_nat (Suc (conditionIdCounter s))\<rparr>"
  from h have wf: "well_formed s" by simp
  show v1: "view (api_case v s) = view s @ [?rec]"
    using h by (simp add: view_api_case [OF wf])
  have wf1: "well_formed (api_case v s)" using wf by (rule wf_api_case)
  have v2: "view (api_render p (api_case v s)) = view s @ [?rec\<lparr>component := p\<rparr>]"
    by (simp add: view_api_render [OF wf1] v1)
  {
    assume q: "p \<noteq> JNull \<and> (\<forall>c \<in> set (view s). \<not> selectable c)"
    then have none: "\<forall>c \<in> set (view s). \<not> selectable c" by simp
    {
      assume t: "truthy r"
      then have sel: "selectable (?rec\<lparr>component := p\<rparr>)"
        using q by (simp add: selectable_def)
      from api_otherwise_last(1) [OF v2 none sel, of d]
      show "fst (api_otherwise d (api_render p (api_case v s))) = p" by simp
      from api_otherwise_last(2) [OF v2 none sel, of d]
      show "getMatchedIndex (snd (api_otherwise d (api_render p (api_case v s)))) =
              int (length (view s))" by simp
    }
    {
      assume f: "\<not> truthy r"
      then have nsel: "\<not> selectable (?rec\<lparr>component := p\<rparr>)"
        by (simp add: selectable_def)
      from api_otherwise_last(3) [OF v2 none nsel, of d]
      show "getMatchedIndex (snd (api_otherwise d (api_render p (api_case v s)))) = - 1" .
      show "\<forall>c \<in> set (view (api_render p (api_case v s))). \<not> selectable c"
        using none nsel by (simp add: v2)
    }
  }
qed

theorem case_keeps_comparator_value_witness:
  "view (api_case (JStr ''abc'') truthy_match) =
     [\<lparr>ctype = TMatch, condition = Some (JStr ''yes''), matchValue = Some (JStr ''abc''),
       component = JNull, cid = ''case-1''\<rparr>] \<and>
   fst (api_otherwise None (api_render (JStr ''P'') (api_case (JStr ''abc'') truthy_match))) =
     JStr ''P'' \<and>
   getMatchedIndex (snd (api_otherwise None
       (api_render (JStr ''P'') (api_case (JStr ''x'') truthy_match)))) = - 1"
proof -
  have wf: "well_formed truthy_match"
    by (simp add: truthy_match_def well_formed_def)
  have e: "view truthy_match = []"
    by (simp add: truthy_match_def)
  have h1: "well_formed truthy_match \<and> isInMatchMode (meta truthy_match) \<and>
    comparator (meta truthy_match) (mvalue (meta truthy_match)) (JStr ''abc'') =
      Return (JStr ''yes'')"
    using wf by (simp add: truthy_match_def)
  have h2: "well_formed truthy_match \<and> isInMatchMode (meta truthy_match) \<and>
    comparator (meta truthy_match) (mvalue (meta truthy_match)) (JStr ''x'') =
      Return (JNum 0)"
    using wf by (simp add: truthy_match_def)
  have q: "JStr ''P'' \<noteq> JNull \<and> (\<forall>c \<in> set (view truthy_match). \<not> selectable c)"
    by (simp add: e)
  note t1 = case_keeps_comparator_value
      [of truthy_match "JStr ''abc''" "JStr ''yes''" "JStr ''P''" None,
       THEN conjunct1, rule_format, OF h1]
  note t2 = case_keeps_comparator_value
      [of truthy_match "JStr ''x''" "JNum 0" "JStr ''P''" None,
       THEN conjunct1, rule_format, OF h2]
  have 1: "view (api_case (JStr ''abc'') truthy_match) =
     [\<lparr>ctype = TMatch, condition = Some (JStr ''yes''), matchValue = Some (JStr ''abc''),
       component = JNull, cid = ''case-1''\<rparr>]"
    using t1 [THEN conjunct1]
    by (simp add: e) (simp add: truthy_match_def string_of_nat.simps digit_def)
  have 2: "fst (api_otherwise None
             (api_render (JStr ''P'') (api_case (JStr ''abc'') truthy_match))) = JStr ''P''"
    using t1 [THEN conjunct2, rule_format, OF q, THEN conjunct1] by simp
  have 3: "getMatchedIndex (snd (api_otherwise None
       (api_render (JStr ''P'') (api_case (JStr ''x'') truthy_match)))) = - 1"
    using t2 [THEN conjunct2, rule_format, OF q, THEN conjunct2] by simp
  from 1 2 3 show ?thesis by blast
qed

section \<open>The match context\<close>

lemma api_debug_fields [simp]:
  "heap (api_debug s) = heap s" "conditions (api_debug s) = conditions s"
  "meta (api_debug s) = meta s" "conditionIdCounter (api_debug s) = conditionIdCounter s"
  by (simp_all add: api_debug_def)

lemma view_api_debug [simp]: "view (api_debug s) = view s"
  by (rule view_cong) simp_all

lemma wf_api_debug [simp]: "well_formed (api_debug s) = well_formed s"
  by (rule wf_cong) simp_all

lemma reset_fields [simp]:
  "heap (reset s) = heap s" "conditions (reset s) = []"
  "meta (reset s) = initial_meta" "conditionIdCounter (reset s) = conditionIdCounter s"
  by (simp_all add: reset_def)

lemma wf_reset [simp]: "well_formed (reset s)"
  by (simp add: well_formed_def)

lemma wf_run_call: "well_formed s \<Longrightarrow> well_formed (snd (run_call c s))"
  by (cases c)
     (simp_all add: wf_api_when wf_api_case wf_api_fallback split: prod.splits,
      metis snd_conv wf_api_otherwise)

lemma run_call_context:
  "\<not> changes_context c \<Longrightarrow> match_context (snd (run_call c s)) = match_context s"
  by (cases c) (simp_all add: match_context_def split_beta)

lemma wf_run: "well_formed s \<Longrightarrow> well_formed (snd (run cs s))"
  by (induction cs arbitrary: s) (simp_all add: split_beta wf_run_call)

lemma run_context:
  "\<forall>c \<in> set cs. \<not> changes_context c \<Longrightarrow> match_context (snd (run cs s)) = match_context s"
  by (induction cs arbitrary: s) (simp_all add: split_beta run_call_context)

text \<open>
  Claim C9. The open flag, the subject and the comparator are changed by \<^verbatim>\<open>match\<close> and
  \<^verbatim>\<open>reset\<close> only: every other call, and every sequence of other calls, leaves them as
  they are. So after such a sequence on a state with an open context, \<^verbatim>\<open>case(v)\<close> appends
  a \<open>match\<close> record whose condition comes from the comparator and subject stored before.
\<close>

theorem match_context_frame:
  "(\<not> changes_context c \<longrightarrow> match_context (snd (run_call c s)) = match_context s) \<and>
   ((\<forall>c \<in> set cs. \<not> changes_context c) \<longrightarrow>
      match_context (snd (run cs s)) = match_context s) \<and>
   ((\<forall>c \<in> set cs. \<not> changes_context c) \<and> isInMatchMode (meta s) \<and> well_formed s \<longrightarrow>
      view (api_case v (snd (run cs s))) =
        view (snd (run cs s)) @
          [\<lparr>ctype = TMatch,
            condition = Some (outcome (comparator (meta s) (mvalue (meta s)) v)),
            matchValue = Some v, component = JNull,
            cid = ''case-'' @ string_of_nat (Suc (conditionIdCounter (snd (run cs s))))\<rparr>])"
proof (intro conjI impI)
  assume h: "(\<forall>c \<in> set cs. \<not> changes_context c) \<and> isInMatchMode (meta s) \<and> well_formed s"
  let ?t = "snd (run cs s)"
  have wf: "well_formed ?t" using h by (simp add: wf_run)
  have "match_context ?t = match_context s" using h by (simp add: run_context)
  then have ctx: "isInMatchMode (meta ?t) = isInMatchMode (meta s)"
    "mvalue (meta ?t) = mvalue (meta s)" "comparator (meta ?t) = comparator (meta s)"
    by (simp_all add: match_context_def)
  show "view (api_case v ?t) =
        view ?t @
          [\<lparr>ctype = TMatch,
            condition = Some (outcome (comparator (meta s) (mvalue (meta s)) v)),
            matchValue = Some v, component = JNull,
            cid = ''case-'' @ string_of_nat (Suc (conditionIdCounter ?t))\<rparr>]"
    using h by (simp add: view_api_case [OF wf] ctx)
qed (simp_all add: run_call_context run_context)

theorem match_context_frame_witness:
  "match_context
     (snd (run [When (JBool True), Then (JStr ''W''), Otherwise None, Fallback (JStr ''F''),
                Debug, Case (JStr ''admin''), Render (JStr ''R'')] match_user)) =
     (True, JStr ''user'', defaultComparator) \<and>
   match_context (snd (run_call (Otherwise None) match_user)) =
     (True, JStr ''user'', defaultComparator) \<and>
   condition (last (view (api_case (JStr ''user'')
     (snd (run [When (JBool True), Then (JStr ''W''), Otherwise None] match_user))))) =
     Some (JBool True)"
proof -
  have a: "\<forall>c \<in> set [When (JBool True), Then (JStr ''W''), Otherwise None,
             Fallback (JStr ''F''), Debug, Case (JStr ''admin''), Render (JStr ''R'')].
             \<not> changes_context c"
    by simp
  have b: "\<not> changes_context (Otherwise None)" by simp
  have c: "(\<forall>c \<in> set [When (JBool True), Then (JStr ''W''), Otherwise None].
              \<not> changes_context c) \<and>
           isInMatchMode (meta match_user) \<and> well_formed match_user"
    by (simp add: match_user_def well_formed_def)
  have m: "match_context match_user = (True, JStr ''user'', defaultComparator)"
    by (simp add: match_context_def match_user_def)
  have o: "outcome (comparator (meta match_user) (mvalue (meta match_user)) (JStr ''user'')) =
           JBool True"
    by (simp add: match_user_def defaultComparator_def Number_isNaN_def strict_equals_def)
  note t = match_context_frame
  have 1: "match_context
     (snd (run [When (JBool True), Then (JStr ''W''), Otherwise None, Fallback (JStr ''F''),
                Debug, Case (JStr ''admin''), Render (JStr ''R'')] match_user)) =
     (True, JStr ''user'', defaultComparator)"
    using t [THEN conjunct2, THEN conjunct1, THEN mp, OF a, of match_user] m by simp
  have 2: "match_context (snd (run_call (Otherwise None) match_user)) =
     (True, JStr ''user'', defaultComparator)"
    using t [THEN conjunct1, THEN mp, OF b, of match_user] m by simp
  have 3: "condition (last (view (api_case (JStr ''user'')
     (snd (run [When (JBool True), Then (JStr ''W''), Otherwise None] match_user))))) =
     Some (JBool True)"
    using t [THEN conjunct2, THEN conjunct2, THEN mp, OF c, of "JStr ''user''"] o
    by simp
  from 1 2 3 show ?thesis by blast
qed

section \<open>The payload null\<close>

text \<open>
  For claim C2 as stated: after \<^verbatim>\<open>when(true).then(null)\<close> the branch is reported as
  incomplete and \<^verbatim>\<open>otherwise(D)\<close> returns \<open>D\<close> with nothing matched, while with the payload
  \<open>A\<close> the same branch is complete and selected.
\<close>

theorem null_payload_counterexample:
  "incomplete (last (view (api_then JNull when_true))) \<and>
   fst (api_otherwise (Some (JStr ''D'')) (api_then JNull when_true)) = JStr ''D'' \<and>
   \<not> hasMatched (snd (api_otherwise (Some (JStr ''D'')) (api_then JNull when_true))) \<and>
   console (snd (api_otherwise (Some (JStr ''D'')) (api_then JNull when_true))) =
     [Warn ''[useCondition] Found 1 incomplete condition(s). These will be ignored.''] \<and>
   \<not> incomplete (last (view (api_then (JStr ''A'') when_true))) \<and>
   fst (api_otherwise (Some (JStr ''D'')) (api_then (JStr ''A'') when_true)) = JStr ''A'' \<and>
   hasMatched (snd (api_otherwise (Some (JStr ''D'')) (api_then (JStr ''A'') when_true)))"
proof -
  have wf: "well_formed when_true"
    by (simp add: when_true_def well_formed_def)
  have v: "view when_true =
      [\<lparr>ctype = TWhen, condition = Some (JBool True), matchValue = None,
        component = JNull, cid = ''when-1''\<rparr>]"
    by (simp add: when_true_def view_def deref_def)
  have c: "console (api_then p when_true) = []" for p
    by (simp add: api_then_def validateChaining_def lastCondition_def when_true_def)
  have vn: "view (api_then p when_true) =
      [\<lparr>ctype = TWhen, condition = Some (JBool True), matchValue = None,
        component = p, cid = ''when-1''\<rparr>]" for p
    by (simp add: view_api_then [OF wf] v)
  show ?thesis
    by (simp add: vn c incomplete_def selectable_def api_otherwise_result hasMatched_def
        api_otherwise_index api_otherwise_console string_of_nat.simps digit_def)
qed

text \<open>
  Claim C2, amended. \<^verbatim>\<open>null\<close> itself is the marker of a missing payload. After \<^verbatim>\<open>then(p)\<close>
  on a last record of type \<open>when\<close> (and after \<^verbatim>\<open>render(p)\<close> on one of type \<open>match\<close>) the
  record is incomplete exactly when \<open>p\<close> is \<^verbatim>\<open>null\<close>; when its condition is truthy and no
  earlier record is selectable, \<^verbatim>\<open>otherwise\<close> returns \<open>p\<close> at that index for every other
  \<open>p\<close>, \<^verbatim>\<open>undefined\<close>, \<^verbatim>\<open>false\<close>, \<open>0\<close> and the empty string included, and selects nothing
  for \<^verbatim>\<open>null\<close>.
\<close>

theorem null_payload_is_unset:
  "(well_formed s \<and> conditions s \<noteq> [] \<and> ctype (last (view s)) = TWhen \<longrightarrow>
      incomplete (last (view (api_then p s))) = (p = JNull) \<and>
      ((\<forall>c \<in> set (butlast (view s)). \<not> selectable c) \<and>
       (\<exists>b. condition (last (view s)) = Some b \<and> truthy b) \<longrightarrow>
         (p \<noteq> JNull \<longrightarrow>
            fst (api_otherwise d (api_then p s)) = p \<and>
            getMatchedIndex (snd (api_otherwise d (api_then p s))) =
              int (length (view s)) - 1) \<and>
         (p = JNull \<longrightarrow>
            getMatchedIndex (snd (api_otherwise d (api_then p s))) = - 1))) \<and>
   (well_formed s \<and> conditions s \<noteq> [] \<and> ctype (last (view s)) = TMatch \<longrightarrow>
      incomplete (last (view (api_render p s))) = (p = JNull) \<and>
      ((\<forall>c \<in> set (butlast (view s)). \<not> selectable c) \<and>
       (\<exists>b. condition (last (view s)) = Some b \<and> truthy b) \<longrightarrow>
         (p \<noteq> JNull \<longrightarrow>
            fst (api_otherwise d (api_render p s)) = p \<and>
            getMatchedIndex (snd (api_otherwise d (api_render p s))) =
              int (length (view s)) - 1) \<and>
         (p = JNull \<longrightarrow>
            getMatchedIndex (snd (api_otherwise d (api_render p s))) = - 1)))"
proof -
  have main: "incomplete (last v') = (p = JNull) \<and>
      ((\<forall>c \<in> set (butlast (view s)). \<not> selectable c) \<and>
       (\<exists>b. condition (last (view s)) = Some b \<and> truthy b) \<longrightarrow>
         (p \<noteq> JNull \<longrightarrow>
            fst (api_otherwise d s') = p \<and>
            getMatchedIndex (snd (api_otherwise d s')) = int (length (view s)) - 1) \<and>
         (p = JNull \<longrightarrow> getMatchedIndex (snd (api_otherwise d s')) = - 1))"
    if ne: "conditions s \<noteq> []"
      and ty: "ctype (last (view s)) = TWhen \<or> ctype (last (view s)) = TMatch"
      and v': "view s' = butlast (view s) @ [(last (view s))\<lparr>component := p\<rparr>]"
      and vv: "v' = view s'"
    for s' v'
  proof (intro conjI impI)
    show "incomplete (last v') = (p = JNull)"
      using ty by (auto simp: vv v' incomplete_def)
  next
    assume h: "(\<forall>c \<in> set (butlast (view s)). \<not> selectable c) \<and>
       (\<exists>b. condition (last (view s)) = Some b \<and> truthy b)"
    then have none: "\<forall>c \<in> set (butlast (view s)). \<not> selectable c" by simp
    have len: "int (length (butlast (view s))) = int (length (view s)) - 1"
      using ne by (simp add: of_nat_diff Suc_leI)
    {
      assume p: "p \<noteq> JNull"
      have sel: "selectable ((last (view s))\<lparr>component := p\<rparr>)"
        using h ty p by (auto simp: selectable_def)
      from api_otherwise_last(1) [OF v' none sel, of d]
      show "fst (api_otherwise d s') = p" by simp
      from api_otherwise_last(2) [OF v' none sel, of d] len
      show "getMatchedIndex (snd (api_otherwise d s')) = int (length (view s)) - 1" by simp
    }
    {
      assume p: "p = JNull"
      have nsel: "\<not> selectable ((last (view s))\<lparr>component := p\<rparr>)"
        using p by (simp add: selectable_def)
      from api_otherwise_last(3) [OF v' none nsel, of d]
      show "getMatchedIndex (snd (api_otherwise d s')) = - 1" .
    }
  qed
  show ?thesis
  proof (rule conjI [OF impI impI])
    assume h: "well_formed s \<and> conditions s \<noteq> [] \<and> ctype (last (view s)) = TWhen"
    then have "view (api_then p s) = butlast (view s) @ [(last (view s))\<lparr>component := p\<rparr>]"
      by (simp add: view_api_then)
    from main [OF _ _ this refl] h
    show "incomplete (last (view (api_then p s))) = (p = JNull) \<and>
      ((\<forall>c \<in> set (butlast (view s)). \<not> selectable c) \<and>
       (\<exists>b. condition (last (view s)) = Some b \<and> truthy b) \<longrightarrow>
         (p \<noteq> JNull \<longrightarrow>
            fst (api_otherwise d (api_then p s)) = p \<and>
            getMatchedIndex (snd (api_otherwise d (api_then p s))) =
              int (length (view s)) - 1) \<and>
         (p = JNull \<longrightarrow>
            getMatchedIndex (snd (api_otherwise d (api_then p s))) = - 1))"
      by simp
  next
    assume h: "well_formed s \<and> conditions s \<noteq> [] \<and> ctype (last (view s)) = TMatch"
    then have "view (api_render p s) = butlast (view s) @ [(last (view s))\<lparr>component := p\<rparr>]"
      by (simp add: view_api_render)
    from main [OF _ _ this refl] h
    show "incomplete (last (view (api_render p s))) = (p = JNull) \<and>
      ((\<forall>c \<in> set (butlast (view s)). \<not> selectable c) \<and>
       (\<exists>b. condition (last (view s)) = Some b \<and> truthy b) \<longrightarrow>
         (p \<noteq> JNull \<longrightarrow>
            fst (api_otherwise d (api_render p s)) = p \<and>
            getMatchedIndex (snd (api_otherwise d (api_render p s))) =
              int (length (view s)) - 1) \<and>
         (p = JNull \<longrightarrow>
            getMatchedIndex (snd (api_otherwise d (api_render p s))) = - 1))"
      by simp
  qed
qed

theorem null_payload_is_unset_witness:
  "incomplete (last (view (api_then JUndefined when_true))) = False \<and>
   fst (api_otherwise None (api_then JUndefined when_true)) = JUndefined \<and>
   getMatchedIndex (snd (api_otherwise None (api_then JUndefined when_true))) = 0 \<and>
   incomplete (last (view (api_then JNull when_true))) = True \<and>
   getMatchedIndex (snd (api_otherwise None (api_then JNull when_true))) = - 1"
proof -
  have v: "view when_true =
      [\<lparr>ctype = TWhen, condition = Some (JBool True), matchValue = None,
        component = JNull, cid = ''when-1''\<rparr>]"
    by (simp add: when_true_def view_def deref_def)
  have h: "well_formed when_true \<and> conditions when_true \<noteq> [] \<and>
           ctype (last (view when_true)) = TWhen"
    unfolding v by (simp add: when_true_def well_formed_def)
  have q: "(\<forall>c \<in> set (butlast (view when_true)). \<not> selectable c) \<and>
           (\<exists>b. condition (last (view when_true)) = Some b \<and> truthy b)"
    unfolding v by simp
  note t1 = null_payload_is_unset [of when_true JUndefined None, THEN conjunct1, THEN mp, OF h]
  note t2 = null_payload_is_unset [of when_true JNull None, THEN conjunct1, THEN mp, OF h]
  have 1: "incomplete (last (view (api_then JUndefined when_true))) = False"
    using t1 [THEN conjunct1] by simp
  have 2: "fst (api_otherwise None (api_then JUndefined when_true)) = JUndefined \<and>
     getMatchedIndex (snd (api_otherwise None (api_then JUndefined when_true))) = 0"
    using t1 [THEN conjunct2, THEN mp, OF q, THEN conjunct1] by (simp add: when_true_def)
  have 3: "incomplete (last (view (api_then JNull when_true))) = True"
    using t2 [THEN conjunct1] by simp
  have 4: "getMatchedIndex (snd (api_otherwise None (api_then JNull when_true))) = - 1"
    using t2 [THEN conjunct2, THEN mp, OF q, THEN conjunct2] by simp
  from 1 2 3 4 show ?thesis by blast
qed

section \<open>Snapshots\<close>

text \<open>
  Claim C3, on the chain \<^verbatim>\<open>when(false).then(A)\<close>: \<^verbatim>\<open>otherwise()\<close> returns \<^verbatim>\<open>null\<close>; after
  a write to the \<open>condition\<close> of the first entry of the snapshot it returns \<open>A\<close>, and after
  a write to its \<open>component\<close> as well, the written value.
\<close>

theorem snapshot_entry_write_changes_result:
  "getConditions when_false_then_A = [0] \<and>
   fst (api_otherwise None when_false_then_A) = JNull \<and>
   fst (api_otherwise None
         (entry_assign (getConditions when_false_then_A ! 0)
            (\<lambda>c. c\<lparr>condition := Some (JBool True)\<rparr>) when_false_then_A)) = JStr ''A'' \<and>
   fst (api_otherwise None
         (entry_assign (getConditions when_false_then_A ! 0)
            (\<lambda>c. c\<lparr>condition := Some (JBool True), component := JStr ''X''\<rparr>)
            when_false_then_A)) = JStr ''X''"
  by (simp add: getConditions_def when_false_then_A_def entry_assign_def
      api_otherwise_result view_def deref_def selectable_def)

section \<open>One fallback\<close>




lemma fallback_count_append [simp]:
  "fallback_count (v @ [r]) = fallback_count v + (if ctype r = TFallback then 1 else 0)"
  by (simp add: fallback_count_def)







lemma view_reset [simp]: "view (reset s) = []"
  by simp


lemma wf_useCondition [simp]: "well_formed (useCondition h n out)"
  by (simp add: useCondition_def well_formed_def)


lemma fallback_index_found:
  "\<exists>c \<in> set v. ctype c = TFallback \<Longrightarrow>
   fallback_index v < length v \<and> ctype (v ! fallback_index v) = TFallback"
  unfolding fallback_index_def by (induction v) auto



section \<open>Reset\<close>

subsection \<open>States with the same chain\<close>

lemma meta_api_otherwise:
  "meta (snd (api_otherwise d s)) =
     (meta s)\<lparr>matchedIndex :=
        (case find selectable (view s) of
           Some c \<Rightarrow> int (length (takeWhile (\<lambda>c. \<not> selectable c) (view s)))
         | None \<Rightarrow> - 1)\<rparr>"
  by (simp add: api_otherwise_def Let_def first_match_view split: option.splits)

lemma run_call_same_chain:
  assumes "well_formed s" "well_formed t" "same_chain s t"
  shows "fst (run_call c s) = fst (run_call c t) \<and>
         same_chain (snd (run_call c s)) (snd (run_call c t))"
proof -
  from assms(3) have v: "view s = view t" and m: "meta s = meta t"
    and n: "conditionIdCounter s = conditionIdCounter t"
    by (simp_all add: same_chain_def)
  show ?thesis
  proof (cases c)
    case (When x)
    then show ?thesis
      using assms(1,2) by (simp add: same_chain_def view_api_when v m n)
  next
    case (Then x)
    then show ?thesis
      using assms(1,2) by (simp add: same_chain_def view_api_then v m n)
  next
    case (Match x y)
    then show ?thesis
      by (simp add: same_chain_def v m n)
  next
    case (Case x)
    then show ?thesis
      using assms(1,2) by (simp add: same_chain_def view_api_case counter_api_case v m n)
  next
    case (Render x)
    then show ?thesis
      using assms(1,2) by (simp add: same_chain_def view_api_render v m n)
  next
    case (Fallback x)
    then show ?thesis
      using assms(1,2)
      by (simp add: same_chain_def view_api_fallback counter_api_fallback v m n)
  next
    case Debug
    then show ?thesis by (simp add: same_chain_def v m n)
  next
    case Reset
    then show ?thesis by (simp add: same_chain_def n)
  next
    case (Otherwise d)
    have "fst (api_otherwise d s) = fst (api_otherwise d t)"
      by (simp only: api_otherwise_result v)
    moreover have "meta (snd (api_otherwise d s)) = meta (snd (api_otherwise d t))"
      by (simp only: meta_api_otherwise v m)
    ultimately show ?thesis
      using Otherwise by (simp add: same_chain_def split_beta v n)
  next
    case GetMatchedIndex
    then show ?thesis by (simp add: same_chain_def getMatchedIndex_def v m n)
  next
    case HasMatched
    then show ?thesis by (simp add: same_chain_def hasMatched_def v m n)
  next
    case GetConditions
    have "deref s (getConditions s) = view s" "deref t (getConditions t) = view t"
      by (simp_all add: view_def getConditions_def)
    with GetConditions show ?thesis by (simp add: same_chain_def v m n)
  qed
qed

lemma run_same_chain:
  "well_formed s \<Longrightarrow> well_formed t \<Longrightarrow> same_chain s t \<Longrightarrow>
   fst (run cs s) = fst (run cs t) \<and> same_chain (snd (run cs s)) (snd (run cs t))"
proof (induction cs arbitrary: s t)
  case Nil
  then show ?case by simp
next
  case (Cons c cs)
  from run_call_same_chain [OF Cons.prems, of c]
  have r: "fst (run_call c s) = fst (run_call c t)"
    and sc: "same_chain (snd (run_call c s)) (snd (run_call c t))" by simp_all
  have "well_formed (snd (run_call c s))" "well_formed (snd (run_call c t))"
    using Cons.prems by (simp_all add: wf_run_call)
  from Cons.IH [OF this sc] r show ?case
    by (simp add: split_beta)
qed

lemma erase_id_fields [simp]:
  "ctype (erase_id c) = ctype c" "condition (erase_id c) = condition c"
  "matchValue (erase_id c) = matchValue c" "component (erase_id c) = component c"
  "erase_id (c\<lparr>component := p\<rparr>) = (erase_id c)\<lparr>component := p\<rparr>"
  "selectable (erase_id c) = selectable c"
  by (simp_all add: erase_id_def selectable_def)

lemma erase_replace_last:
  "map erase_id
     (if v \<noteq> [] \<and> ctype (last v) = T then butlast v @ [(last v)\<lparr>component := p\<rparr>] else v) =
   (if map erase_id v \<noteq> [] \<and> ctype (last (map erase_id v)) = T then
      butlast (map erase_id v) @ [(last (map erase_id v))\<lparr>component := p\<rparr>]
    else map erase_id v)"
  by (cases v rule: rev_cases) simp_all

lemma erase_fallback_index: "fallback_index (map erase_id v) = fallback_index v"
  by (simp add: fallback_index_def takeWhile_map_length)

lemma erase_replace_fallback:
  "map erase_id
     (if \<exists>c \<in> set v. ctype c = TFallback then
        v[fallback_index v := (v ! fallback_index v)\<lparr>component := p\<rparr>]
      else v @ [r]) =
   (if \<exists>c \<in> set (map erase_id v). ctype c = TFallback then
      (map erase_id v)[fallback_index (map erase_id v) :=
         (map erase_id v ! fallback_index (map erase_id v))\<lparr>component := p\<rparr>]
    else map erase_id v @ [erase_id r])"
proof (cases "\<exists>c \<in> set v. ctype c = TFallback")
  case True
  from fallback_index_found [OF this] have "fallback_index v < length v" by simp
  then show ?thesis
    using True by (simp add: erase_fallback_index map_update)
next
  case False
  then show ?thesis by simp
qed

lemma erase_find_selectable:
  "find selectable (map erase_id v) = map_option erase_id (find selectable v)"
  by (simp add: find_map_conv)

lemma erase_find_fallback:
  "find (\<lambda>c. ctype c = TFallback) (map erase_id v) =
   map_option erase_id (find (\<lambda>c. ctype c = TFallback) v)"
  by (simp add: find_map_conv)

lemma erase_takeWhile:
  "length (takeWhile (\<lambda>c. \<not> selectable c) (map erase_id v)) =
   length (takeWhile (\<lambda>c. \<not> selectable c) v)"
  by (simp add: takeWhile_map_length)

lemma resolved_erase: "resolved (map erase_id v) dflt = resolved v dflt"
  by (simp add: resolved_def erase_find_selectable erase_find_fallback
      split: option.splits)

lemma resolved_index_erase: "resolved_index (map erase_id v) = resolved_index v"
  by (simp add: resolved_index_def erase_find_selectable erase_takeWhile
      split: option.splits)

lemma run_call_same_chain_but_ids:
  assumes "well_formed s" "well_formed t" "same_chain_but_ids s t"
  shows "erase_ids (fst (run_call c s)) = erase_ids (fst (run_call c t)) \<and>
         same_chain_but_ids (snd (run_call c s)) (snd (run_call c t))"
proof -
  from assms(3) have v: "map erase_id (view s) = map erase_id (view t)"
    and m: "meta s = meta t"
    by (simp_all add: same_chain_but_ids_def)
  show ?thesis
  proof (cases c)
    case (When x)
    then show ?thesis
      using assms(1,2) by (simp add: same_chain_but_ids_def view_api_when v m erase_id_def)
  next
    case (Then x)
    have "map erase_id (view (api_then x s)) = map erase_id (view (api_then x t))"
      by (simp only: view_api_then [OF assms(1)] view_api_then [OF assms(2)]
          erase_replace_last v)
    with Then show ?thesis by (simp add: same_chain_but_ids_def m)
  next
    case (Match x y)
    then show ?thesis by (simp add: same_chain_but_ids_def v m)
  next
    case (Case x)
    then show ?thesis
      using assms(1,2) by (simp add: same_chain_but_ids_def view_api_case v m erase_id_def)
  next
    case (Render x)
    have "map erase_id (view (api_render x s)) = map erase_id (view (api_render x t))"
      by (simp only: view_api_render [OF assms(1)] view_api_render [OF assms(2)]
          erase_replace_last v)
    with Render show ?thesis by (simp add: same_chain_but_ids_def m)
  next
    case (Fallback x)
    have e: "erase_id \<lparr>ctype = TFallback, condition = None, matchValue = None, component = x,
               cid = ''fallback-'' @ string_of_nat (Suc (conditionIdCounter s))\<rparr> =
             erase_id \<lparr>ctype = TFallback, condition = None, matchValue = None, component = x,
               cid = ''fallback-'' @ string_of_nat (Suc (conditionIdCounter t))\<rparr>"
      by (simp add: erase_id_def)
    have "map erase_id (view (api_fallback x s)) = map erase_id (view (api_fallback x t))"
      by (simp only: view_api_fallback [OF assms(1)] view_api_fallback [OF assms(2)]
          erase_replace_fallback v e)
    with Fallback show ?thesis by (simp add: same_chain_but_ids_def m)
  next
    case Debug
    then show ?thesis by (simp add: same_chain_but_ids_def v m)
  next
    case Reset
    then show ?thesis by (simp add: same_chain_but_ids_def)
  next
    case (Otherwise d)
    have r: "fst (api_otherwise d u) = resolved (map erase_id (view u)) (default_parameter d)"
      for u
      by (simp only: resolved_erase) (simp add: resolved_def api_otherwise_result)
    have i: "meta (snd (api_otherwise d u)) =
          (meta u)\<lparr>matchedIndex := resolved_index (map erase_id (view u))\<rparr>" for u
      by (simp only: resolved_index_erase) (simp add: resolved_index_def meta_api_otherwise)
    show ?thesis
      using Otherwise by (simp add: same_chain_but_ids_def split_beta r i v m)
  next
    case GetMatchedIndex
    then show ?thesis by (simp add: same_chain_but_ids_def getMatchedIndex_def v m)
  next
    case HasMatched
    then show ?thesis by (simp add: same_chain_but_ids_def hasMatched_def v m)
  next
    case GetConditions
    have "deref s (getConditions s) = view s" "deref t (getConditions t) = view t"
      by (simp_all add: view_def getConditions_def)
    with GetConditions show ?thesis by (simp add: same_chain_but_ids_def v m)
  qed
qed

lemma run_same_chain_but_ids:
  "well_formed s \<Longrightarrow> well_formed t \<Longrightarrow> same_chain_but_ids s t \<Longrightarrow>
   map erase_ids (fst (run cs s)) = map erase_ids (fst (run cs t)) \<and>
   same_chain_but_ids (snd (run cs s)) (snd (run cs t))"
proof (induction cs arbitrary: s t)
  case Nil
  then show ?case by simp
next
  case (Cons c cs)
  from run_call_same_chain_but_ids [OF Cons.prems, of c]
  have r: "erase_ids (fst (run_call c s)) = erase_ids (fst (run_call c t))"
    and sc: "same_chain_but_ids (snd (run_call c s)) (snd (run_call c t))" by simp_all
  have "well_formed (snd (run_call c s))" "well_formed (snd (run_call c t))"
    using Cons.prems by (simp_all add: wf_run_call)
  from Cons.IH [OF this sc] r show ?case
    by (simp add: split_beta)
qed

text \<open>
  For claim C7 as stated: on the handle of \<open>three_whens\<close> after \<^verbatim>\<open>reset()\<close>, the calls
  \<^verbatim>\<open>when(true)\<close> and \<^verbatim>\<open>getConditions()\<close> give a record with id \<open>when-4\<close>; on a handle
  created where the counter of the module is still \<open>0\<close> they give the id \<open>when-1\<close>. So
  the contents of the snapshots differ.
\<close>

theorem reset_ids_counterexample:
  "fst (run [When (JBool True), GetConditions] (reset three_whens)) =
     [Api, Snapshot [\<lparr>ctype = TWhen, condition = Some (JBool True), matchValue = None,
                      component = JNull, cid = ''when-4''\<rparr>]] \<and>
   fst (run [When (JBool True), GetConditions] (useCondition [] 0 [])) =
     [Api, Snapshot [\<lparr>ctype = TWhen, condition = Some (JBool True), matchValue = None,
                      component = JNull, cid = ''when-1''\<rparr>]] \<and>
   fst (run [When (JBool True), GetConditions] (reset three_whens)) \<noteq>
   fst (run [When (JBool True), GetConditions] (useCondition [] 0 []))"
proof -
  have d: "deref u (getConditions u) = view u" for u
    by (simp add: view_def getConditions_def)
  have n: "string_of_nat 4 = ''4''" "string_of_nat (Suc 0) = ''1''"
    by (simp_all add: string_of_nat.simps digit_def)
  have c: "conditionIdCounter three_whens = 3"
    by (simp add: three_whens_def)
  have c0: "conditionIdCounter (useCondition [] 0 []) = 0" "view (useCondition [] 0 []) = []"
    by (simp_all add: useCondition_def view_def deref_def)
  have 1: "fst (run [When (JBool True), GetConditions] (reset three_whens)) =
     [Api, Snapshot [\<lparr>ctype = TWhen, condition = Some (JBool True), matchValue = None,
                      component = JNull, cid = ''when-4''\<rparr>]]"
    by (simp add: d view_api_when c n)
  have 2: "fst (run [When (JBool True), GetConditions] (useCondition [] 0 [])) =
     [Api, Snapshot [\<lparr>ctype = TWhen, condition = Some (JBool True), matchValue = None,
                      component = JNull, cid = ''when-1''\<rparr>]]"
    by (simp add: d view_api_when c0 n del: view_Nil)
  have 3: "fst (run [When (JBool True), GetConditions] (reset three_whens)) \<noteq>
   fst (run [When (JBool True), GetConditions] (useCondition [] 0 []))"
    by (simp only: 1 2) simp
  from 1 2 3 show ?thesis by blast
qed

text \<open>
  Claim C7, amended. After \<^verbatim>\<open>reset()\<close> the chain is empty, \<open>matchedIndex\<close> is \<open>-1\<close>,
  \<^verbatim>\<open>hasMatched()\<close> is false and the match context is closed with the default comparator.
  The ids of new records come from the counter of the module, which \<^verbatim>\<open>reset\<close> does not
  rewind. Every sequence of calls returns the same results (payloads, indices, flags,
  snapshot contents) as on a handle just created by \<^verbatim>\<open>useCondition()\<close> with the counter
  at the same value, whatever the store holds; against a handle created at any other value
  of the counter, the results are the same but for the ids of the records in snapshots.
\<close>

theorem reset_like_new_handle:
  "conditions (reset s) = [] \<and>
   getConditions (reset s) = [] \<and>
   getMatchedIndex (reset s) = - 1 \<and>
   \<not> hasMatched (reset s) \<and>
   \<not> isInMatchMode (meta (reset s)) \<and>
   comparator (meta (reset s)) = defaultComparator \<and>
   meta (reset s) = meta (useCondition h n out) \<and>
   fst (run cs (reset s)) = fst (run cs (useCondition h (conditionIdCounter s) out)) \<and>
   map erase_ids (fst (run cs (reset s))) = map erase_ids (fst (run cs (useCondition h n out)))"
proof -
  have "same_chain (reset s) (useCondition h (conditionIdCounter s) out)"
    by (simp add: same_chain_def view_def deref_def useCondition_def)
  from run_same_chain [OF wf_reset wf_useCondition this, of cs]
  have 1: "fst (run cs (reset s)) = fst (run cs (useCondition h (conditionIdCounter s) out))"
    by simp
  have "same_chain_but_ids (reset s) (useCondition h n out)"
    by (simp add: same_chain_but_ids_def view_def deref_def useCondition_def)
  from run_same_chain_but_ids [OF wf_reset wf_useCondition this, of cs]
  have 2: "map erase_ids (fst (run cs (reset s))) =
           map erase_ids (fst (run cs (useCondition h n out)))"
    by simp
  from 1 2 show ?thesis
    by (simp add: getConditions_def getMatchedIndex_def hasMatched_def initial_meta_def
        useCondition_def)
qed


end
